theory Spec2Isabelle
  imports Main "HOL-Library.AList" "HOL-Library.Sublist"
begin

section \<open>Python values used by app.py\<close>

text \<open>
  A Python \<open>dict\<close> keeps its keys in insertion order and holds each key once. It is an
  association list here: \<open>d[k] = v\<close> is \<^const>\<open>AList.update\<close> (the value is replaced in
  place when the key is present, the pair is appended otherwise), \<open>k in d\<close> and \<open>d[k]\<close>
  are \<^const>\<open>map_of\<close>, and iteration follows the list.
\<close>

type_synonym ('k, 'v) dict = "('k \<times> 'v) list"

definition dict_keys :: "('k, 'v) dict \<Rightarrow> 'k list" where
  "dict_keys d = map fst d"

abbreviation LF :: char where
  "LF \<equiv> CHR 0x0A"

abbreviation CR :: char where
  "CR \<equiv> CHR 0x0D"

abbreviation DQUOTE :: char where
  "DQUOTE \<equiv> CHR 0x22"

text \<open>\<open>str(n)\<close> for a non-negative integer and the zero padding of \<open>strftime\<close>.\<close>

definition digit :: "nat \<Rightarrow> char" where
  "digit n = ''0123456789'' ! (n mod 10)"

function str_nat :: "nat \<Rightarrow> string" where
  "str_nat n = (if n < 10 then [digit n] else str_nat (n div 10) @ [digit n])"
  by pat_completeness auto
termination
  by (relation "measure id") auto

declare str_nat.simps [simp del]

definition zero_pad :: "nat \<Rightarrow> nat \<Rightarrow> string" where
  "zero_pad width n = replicate (width - length (str_nat n)) (CHR ''0'') @ str_nat n"

text \<open>
  A \<open>datetime\<close> value, broken down in local time. The class holds the years 1 to 9999
  only, so the type does too: a value of this type is a tuple of fields in range.
\<close>

definition valid_datetime :: "nat \<times> nat \<times> nat \<times> nat \<times> nat \<times> nat \<Rightarrow> bool" where
  "valid_datetime c =
     (case c of (year, month, day, hour, minute, second) \<Rightarrow>
        1 \<le> year \<and> year \<le> 9999 \<and> 1 \<le> month \<and> month \<le> 12 \<and> 1 \<le> day \<and> day \<le> 31 \<and>
        hour < 24 \<and> minute < 60 \<and> second < 60)"

typedef datetime = "{c. valid_datetime c}"
  by (rule exI [of _ "(1, 1, 1, 0, 0, 0)"]) (simp add: valid_datetime_def)

setup_lifting type_definition_datetime

lift_definition dt_year :: "datetime \<Rightarrow> nat"
  is "\<lambda>(year, month, day, hour, minute, second). year" .

lift_definition dt_month :: "datetime \<Rightarrow> nat"
  is "\<lambda>(year, month, day, hour, minute, second). month" .

lift_definition dt_day :: "datetime \<Rightarrow> nat"
  is "\<lambda>(year, month, day, hour, minute, second). day" .

lift_definition dt_hour :: "datetime \<Rightarrow> nat"
  is "\<lambda>(year, month, day, hour, minute, second). hour" .

lift_definition dt_minute :: "datetime \<Rightarrow> nat"
  is "\<lambda>(year, month, day, hour, minute, second). minute" .

lift_definition dt_second :: "datetime \<Rightarrow> nat"
  is "\<lambda>(year, month, day, hour, minute, second). second" .

text \<open>
  \<open>strftime("%Y-%m-%d %H:%M:%S")\<close>, as the C library of a POSIX system formats it:
  \<open>%Y\<close> is the year in decimal without padding (\<open>999\<close>, not \<open>0999\<close>), the other fields
  are padded to two digits.
\<close>

definition strftime :: "datetime \<Rightarrow> string" where
  "strftime d =
     str_nat (dt_year d) @ ''-'' @ zero_pad 2 (dt_month d) @ ''-'' @ zero_pad 2 (dt_day d)
     @ '' '' @ zero_pad 2 (dt_hour d) @ '':'' @ zero_pad 2 (dt_minute d) @ '':''
     @ zero_pad 2 (dt_second d)"

section \<open>The environment: monitored folder, baseline file, log file, clock\<close>

text \<open>The exceptions the functions raise or catch.\<close>

datatype error = PermissionError | OSError | ValueError

text \<open>
  A regular file: its bytes, whether it may be opened for reading, and its modification
  timestamp, kept as the local calendar time it denotes, \<open>None\<close> when that lies outside
  the years 1 to 9999. \<open>datetime.fromtimestamp\<close> raises on such a timestamp
  (\<open>ValueError\<close>, or \<open>OverflowError\<close> or \<open>OSError\<close> for larger ones; one error value
  stands for the three).
\<close>

record file_data =
  content :: string
  readable :: bool
  mtime :: "datetime option"

definition fromtimestamp :: "datetime option \<Rightarrow> error + datetime" where
  "fromtimestamp t = (case t of None \<Rightarrow> Inl ValueError | Some d \<Rightarrow> Inr d)"

text \<open>
  An entry of \<open>SECURE_FOLDER\<close>. A symbolic link carries the node its path resolves to
  (\<open>None\<close> when it dangles): \<open>os.stat\<close>, and with it \<open>os.path.isfile\<close>,
  \<open>os.path.getsize\<close>, \<open>os.path.getmtime\<close> and \<open>open\<close>, follow links.
\<close>

datatype node = Regular file_data | Directory | Device | Symlink "node option"

fun stat :: "node \<Rightarrow> node option" where
  "stat (Symlink None) = None"
| "stat (Symlink (Some target)) = stat target"
| "stat n = Some n"

text \<open>
  The regular file a path resolves to, if it resolves to one: \<open>os.path.isfile\<close> says
  whether there is one, and \<open>os.path.getsize\<close> and \<open>os.path.getmtime\<close>, which
  \<open>scan_files\<close> calls only after \<open>isfile\<close> has answered true, are its size and its
  timestamp. (The folder does not change during a scan; a file removed between the two
  calls would make them raise \<open>OSError\<close>, which is outside the model.)
\<close>

definition regular_file :: "node \<Rightarrow> file_data option" where
  "regular_file n = (case stat n of Some (Regular f) \<Rightarrow> Some f | _ \<Rightarrow> None)"

definition isfile :: "node \<Rightarrow> bool" where
  "isfile n = (regular_file n \<noteq> None)"

definition islink :: "node \<Rightarrow> bool" where
  "islink n = (case n of Symlink t \<Rightarrow> True | _ \<Rightarrow> False)"

definition getsize :: "file_data \<Rightarrow> nat" where
  "getsize f = length (content f)"

definition getmtime :: "file_data \<Rightarrow> datetime option" where
  "getmtime f = mtime f"

text \<open>
  \<open>SECURE_FOLDER\<close>: missing, present but refused by \<open>os.listdir\<close> (not a directory, or
  no permission to read it), or a directory with its entries in the order of
  \<open>os.listdir\<close>.
\<close>

datatype folder = Missing | Unlistable | Listing "(string \<times> node) list"

text \<open>One record of the hash database: the value stored under a file name.\<close>

record file_info =
  hash :: string
  size_bytes :: nat
  modified_at :: string

type_synonym hash_db = "(string, file_info) dict"

text \<open>
  \<open>HASH_DB_FILE\<close> is kept in parsed form: \<open>Json d\<close> is a file holding the text that
  \<open>json.dump(d, f, indent=2)\<close> writes, which \<open>json.load\<close> reads back as \<open>d\<close>;
  \<open>Unparseable\<close> is any content on which \<open>open\<close> or \<open>json.load\<close> raises, an empty
  file and a cut-off document among them.
\<close>

datatype db_file = Json hash_db | Unparseable

text \<open>
  What the storage does to the next write of \<open>HASH_DB_FILE\<close>: nothing, refuse the
  \<open>open\<close> (the file is untouched), or fail during the write (the \<open>open\<close> with mode
  \<open>'w'\<close> has already truncated the file, and the document is cut short).
\<close>

datatype write_fault = NoFault | OpenFails | WriteFails

text \<open>
  The state the functions read and write. \<open>hash_db_file\<close> and \<open>log_file\<close> are \<open>None\<close> when the file does not exist;
  \<open>log_writable\<close> says whether \<open>LOG_FILE\<close> may be opened for writing; \<open>clock\<close> gives
  \<open>datetime.now()\<close> at each reading and \<open>tick\<close> counts the readings made.
\<close>

record world =
  secure_folder :: folder
  hash_db_file :: "db_file option"
  db_fault :: write_fault
  log_file :: "string option"
  log_writable :: bool
  clock :: "nat \<Rightarrow> datetime"
  tick :: nat

definition log_text :: "world \<Rightarrow> string" where
  "log_text w = (case log_file w of None \<Rightarrow> [] | Some t \<Rightarrow> t)"

section \<open>The functions of app.py\<close>

subsection \<open>calculate_hash\<close>

text \<open>
  \<open>iter(lambda: f.read(4096), b"")\<close>: the chunks read until the empty one. The digest
  of \<open>hashlib\<close> after the updates is the digest of their concatenation; \<open>sha256\<close> is
  the function from a byte string to its hex digest, a parameter of the model.
\<close>

function read_chunks :: "string \<Rightarrow> string list" where
  "read_chunks bytes =
     (if take 4096 bytes = [] then [] else take 4096 bytes # read_chunks (drop 4096 bytes))"
  by pat_completeness auto
termination
  by (relation "measure length") auto

declare read_chunks.simps [simp del]

definition calculate_hash :: "(string \<Rightarrow> string) \<Rightarrow> node \<Rightarrow> string option" where
  "calculate_hash sha256 filepath =
     (case stat filepath of
        Some (Regular f) \<Rightarrow>
          if readable f then Some (sha256 (concat (read_chunks (content f)))) else None
      | _ \<Rightarrow> None)"

subsection \<open>log_activity\<close>

definition log_entry_text :: "string \<Rightarrow> string \<Rightarrow> string \<Rightarrow> string \<Rightarrow> string" where
  "log_entry_text timestamp level message filename =
     (let log_entry = ''['' @ timestamp @ ''] '' @ level @ '': '' @ message
      in if filename \<noteq> [] then log_entry @ '' (File: '' @ [DQUOTE] @ filename @ [DQUOTE] @ '')''
         else log_entry)"

text \<open>
  The third argument is optional in the source, with default \<open>""\<close>: \<open>None\<close> is a call
  that leaves it out. The clock is read once per call. Opening the log for appending
  creates it when it is absent and raises when it may not be written.
\<close>

definition log_activity :: "string \<Rightarrow> string \<Rightarrow> string option \<Rightarrow> world \<Rightarrow> (error + string) \<times> world" where
  "log_activity level message filename_arg w =
     (let filename = (case filename_arg of None \<Rightarrow> [] | Some f \<Rightarrow> f);
          timestamp = strftime (clock w (tick w));
          w1 = w\<lparr>tick := Suc (tick w)\<rparr>;
          log_entry = log_entry_text timestamp level message filename
      in if log_writable w1
         then (Inr log_entry, w1\<lparr>log_file := Some (log_text w1 @ log_entry @ [LF])\<rparr>)
         else (Inl PermissionError, w1))"

subsection \<open>load_hash_db and save_hash_db\<close>

definition load_hash_db :: "world \<Rightarrow> hash_db" where
  "load_hash_db w =
     (case hash_db_file w of
        None \<Rightarrow> []
      | Some Unparseable \<Rightarrow> []
      | Some (Json d) \<Rightarrow> d)"

definition save_hash_db :: "hash_db \<Rightarrow> world \<Rightarrow> (error + unit) \<times> world" where
  "save_hash_db hash_db w =
     (case db_fault w of
        OpenFails \<Rightarrow> (Inl PermissionError, w)
      | WriteFails \<Rightarrow> (Inl OSError, w\<lparr>hash_db_file := Some Unparseable\<rparr>)
      | NoFault \<Rightarrow> (Inr (), w\<lparr>hash_db_file := Some (Json hash_db)\<rparr>))"

subsection \<open>scan_files\<close>

text \<open>
  The body of the loop for one entry; \<open>regular_file filepath\<close> is \<open>None\<close> exactly when
  \<open>os.path.isfile(filepath)\<close> is false. Nothing in \<open>scan_files\<close> catches what
  \<open>datetime.fromtimestamp\<close> or \<open>os.listdir\<close> raise, so the scan raises with them and
  returns no snapshot.
\<close>

definition scan_entry :: "(string \<Rightarrow> string) \<Rightarrow> string \<times> node \<Rightarrow> hash_db \<Rightarrow> error + hash_db" where
  "scan_entry sha256 entry current_files =
     (let filename = fst entry; filepath = snd entry
      in case regular_file filepath of
           None \<Rightarrow> Inr current_files
         | Some f \<Rightarrow>
             (case calculate_hash sha256 filepath of
                None \<Rightarrow> Inr current_files
              | Some file_hash \<Rightarrow>
                  if file_hash \<noteq> [] then
                    (case fromtimestamp (getmtime f) of
                       Inl e \<Rightarrow> Inl e
                     | Inr d \<Rightarrow>
                         Inr (AList.update filename
                                \<lparr>hash = file_hash, size_bytes = getsize f,
                                 modified_at = strftime d\<rparr> current_files))
                  else Inr current_files))"

fun scan_loop :: "(string \<Rightarrow> string) \<Rightarrow> (string \<times> node) list \<Rightarrow> hash_db \<Rightarrow> error + hash_db" where
  "scan_loop sha256 [] current_files = Inr current_files"
| "scan_loop sha256 (entry # rest) current_files =
     (case scan_entry sha256 entry current_files of
        Inl e \<Rightarrow> Inl e
      | Inr current_files' \<Rightarrow> scan_loop sha256 rest current_files')"

definition scan_files :: "(string \<Rightarrow> string) \<Rightarrow> world \<Rightarrow> error + hash_db" where
  "scan_files sha256 w =
     (case secure_folder w of
        Missing \<Rightarrow> Inr []
      | Unlistable \<Rightarrow> Inl OSError
      | Listing listing \<Rightarrow> scan_loop sha256 listing [])"

subsection \<open>check_integrity\<close>

record results =
  safe :: "string list"
  modified :: "string list"
  deleted :: "string list"
  new :: "string list"

fun check_current :: "hash_db \<Rightarrow> hash_db \<Rightarrow> results \<Rightarrow> world \<Rightarrow> (error + results) \<times> world" where
  "check_current hash_db [] res w = (Inr res, w)"
| "check_current hash_db ((filename, info) # rest) res w =
     (case map_of hash_db filename of
        Some old \<Rightarrow>
          if hash old = hash info then
            (case log_activity ''INFO'' ''File verified OK'' (Some filename) w of
               (Inl e, w') \<Rightarrow> (Inl e, w')
             | (Inr line, w') \<Rightarrow>
                 check_current hash_db rest (res\<lparr>safe := safe res @ [filename]\<rparr>) w')
          else
            (case log_activity ''WARNING'' ''File integrity failed! Hash mismatch detected''
                    (Some filename) w of
               (Inl e, w') \<Rightarrow> (Inl e, w')
             | (Inr line, w') \<Rightarrow>
                 check_current hash_db rest (res\<lparr>modified := modified res @ [filename]\<rparr>) w')
      | None \<Rightarrow>
          (case log_activity ''ALERT'' ''Unknown file detected (new file added)''
                  (Some filename) w of
             (Inl e, w') \<Rightarrow> (Inl e, w')
           | (Inr line, w') \<Rightarrow>
               check_current hash_db rest (res\<lparr>new := new res @ [filename]\<rparr>) w'))"

fun check_missing :: "string list \<Rightarrow> hash_db \<Rightarrow> results \<Rightarrow> world \<Rightarrow> (error + results) \<times> world" where
  "check_missing [] current_files res w = (Inr res, w)"
| "check_missing (filename # rest) current_files res w =
     (if map_of current_files filename = None then
        (case log_activity ''ALERT'' ''File has been deleted'' (Some filename) w of
           (Inl e, w') \<Rightarrow> (Inl e, w')
         | (Inr line, w') \<Rightarrow>
             check_missing rest current_files (res\<lparr>deleted := deleted res @ [filename]\<rparr>) w')
      else check_missing rest current_files res w)"

definition check_integrity :: "(string \<Rightarrow> string) \<Rightarrow> world \<Rightarrow> (error + results) \<times> world" where
  "check_integrity sha256 w =
     (let hash_db = load_hash_db w
      in case scan_files sha256 w of
           Inl e \<Rightarrow> (Inl e, w)
         | Inr current_files \<Rightarrow>
             (let res = \<lparr>safe = [], modified = [], deleted = [], new = []\<rparr>
              in case check_current hash_db current_files res w of
                   (Inl e, w1) \<Rightarrow> (Inl e, w1)
                 | (Inr res1, w1) \<Rightarrow>
                     (case check_missing (dict_keys hash_db) current_files res1 w1 of
                        (Inl e, w2) \<Rightarrow> (Inl e, w2)
                      | (Inr res2, w2) \<Rightarrow>
                          (case save_hash_db current_files w2 of
                             (Inl e, w3) \<Rightarrow> (Inl e, w3)
                           | (Inr u, w3) \<Rightarrow> (Inr res2, w3)))))"

subsection \<open>parse_logs\<close>

text \<open>
  The log is opened in text mode: on reading, \<open>"\r\n"\<close> and a lone \<open>"\r"\<close> become
  \<open>"\n"\<close>, and \<open>readlines()\<close> cuts after every \<open>"\n"\<close>, keeping it (on writing, a
  POSIX system leaves \<open>"\n"\<close> as it is). \<open>x in log\<close> on strings is the test for a
  contiguous substring, \<^const>\<open>sublist\<close>. The log is a sequence of characters; text
  that cannot be encoded or decoded as UTF-8 is outside the model.
\<close>

fun universal_newlines :: "string \<Rightarrow> string" where
  "universal_newlines [] = []"
| "universal_newlines [c] = (if c = CR then [LF] else [c])"
| "universal_newlines (c # d # cs) =
     (if c = CR \<and> d = LF then LF # universal_newlines cs
      else if c = CR then LF # universal_newlines (d # cs)
      else c # universal_newlines (d # cs))"

fun keepends :: "string \<Rightarrow> string list" where
  "keepends [] = []"
| "keepends (c # cs) =
     (if c = LF then [LF] # keepends cs
      else (case keepends cs of [] \<Rightarrow> [[c]] | l # ls \<Rightarrow> (c # l) # ls))"

definition readlines :: "string \<Rightarrow> string list" where
  "readlines text = keepends (universal_newlines text)"

record stats =
  total_logs :: nat
  info :: nat
  warning :: nat
  alert :: nat
  last_anomaly :: "string option"
  recent_logs :: "string list"

text \<open>\<open>log.split(']')[0].replace('[', '')\<close>\<close>

definition timestamp_of :: "string \<Rightarrow> string" where
  "timestamp_of log = filter (\<lambda>c. c \<noteq> CHR ''['') (takeWhile (\<lambda>c. c \<noteq> CHR '']'') log)"

definition parse_line :: "string \<Rightarrow> stats \<Rightarrow> stats" where
  "parse_line log st =
     (if sublist ''INFO'' log then st\<lparr>info := info st + 1\<rparr>
      else if sublist ''WARNING'' log then
        st\<lparr>warning := warning st + 1, last_anomaly := Some (timestamp_of log)\<rparr>
      else if sublist ''ALERT'' log then
        st\<lparr>alert := alert st + 1, last_anomaly := Some (timestamp_of log)\<rparr>
      else st)"

fun parse_loop :: "string list \<Rightarrow> stats \<Rightarrow> stats" where
  "parse_loop [] st = st"
| "parse_loop (log # logs) st = parse_loop logs (parse_line log st)"

definition parse_logs :: "world \<Rightarrow> stats" where
  "parse_logs w =
     (let st = \<lparr>total_logs = 0, info = 0, warning = 0, alert = 0,
                last_anomaly = None, recent_logs = []\<rparr>
      in case log_file w of
           None \<Rightarrow> st
         | Some text \<Rightarrow>
             (let logs = readlines text;
                  st1 = parse_loop logs (st\<lparr>total_logs := length logs\<rparr>)
              in st1\<lparr>recent_logs := rev (drop (length logs - 10) logs)\<rparr>))"

subsection \<open>create_baseline and reset_logs\<close>

definition create_baseline :: "(string \<Rightarrow> string) \<Rightarrow> world \<Rightarrow> (error + nat) \<times> world" where
  "create_baseline sha256 w =
     (case scan_files sha256 w of
        Inl e \<Rightarrow> (Inl e, w)
      | Inr current_files \<Rightarrow>
          (case save_hash_db current_files w of
             (Inl e, w1) \<Rightarrow> (Inl e, w1)
           | (Inr u, w1) \<Rightarrow>
               (case log_activity ''INFO''
                       (''Baseline created for '' @ str_nat (length current_files) @ '' files'')
                       None w1 of
                  (Inl e, w2) \<Rightarrow> (Inl e, w2)
                | (Inr line, w2) \<Rightarrow> (Inr (length current_files), w2))))"

text \<open>
  \<open>open(LOG_FILE, 'w')\<close> raises when the log may not be written, before anything is
  truncated; every exception of the body ends in \<open>return False\<close>.
\<close>

definition reset_logs :: "world \<Rightarrow> bool \<times> world" where
  "reset_logs w =
     (if \<not> log_writable w then (False, w)
      else
        (let w1 = w\<lparr>log_file := Some []\<rparr>
         in case log_activity ''INFO'' ''Log system has been reset'' None w1 of
              (Inl e, w2) \<Rightarrow> (False, w2)
            | (Inr line, w2) \<Rightarrow> (True, w2)))"

section \<open>Notions used to state the properties\<close>

text \<open>
  The classification of a snapshot \<open>S\<close> against a baseline \<open>B\<close> as the specification
  words it, four filters: to be compared with what the loops of \<open>check_integrity\<close>
  collect.
\<close>

definition spec_classify :: "hash_db \<Rightarrow> hash_db \<Rightarrow> results" where
  "spec_classify B S =
     \<lparr>safe = map fst (filter (\<lambda>(n, i). case map_of B n of Some old \<Rightarrow> hash old = hash i | None \<Rightarrow> False) S),
      modified = map fst (filter (\<lambda>(n, i). case map_of B n of Some old \<Rightarrow> hash old \<noteq> hash i | None \<Rightarrow> False) S),
      deleted = filter (\<lambda>n. map_of S n = None) (dict_keys B),
      new = map fst (filter (\<lambda>(n, i). map_of B n = None) S)\<rparr>"

text \<open>
  The audit entry (level, message, file name) that the specification prescribes for a
  name of the snapshot, and for a name that is only in the baseline.
\<close>

definition current_event :: "hash_db \<Rightarrow> string \<times> file_info \<Rightarrow> string \<times> string \<times> string" where
  "current_event B entry =
     (case map_of B (fst entry) of
        None \<Rightarrow> (''ALERT'', ''Unknown file detected (new file added)'', fst entry)
      | Some old \<Rightarrow>
          if hash old = hash (snd entry) then (''INFO'', ''File verified OK'', fst entry)
          else (''WARNING'', ''File integrity failed! Hash mismatch detected'', fst entry))"

definition deleted_event :: "string \<Rightarrow> string \<times> string \<times> string" where
  "deleted_event n = (''ALERT'', ''File has been deleted'', n)"

text \<open>The text of consecutive entries, the clock read once for each, from reading \<open>t\<close> on.\<close>

fun log_lines :: "(nat \<Rightarrow> datetime) \<Rightarrow> nat \<Rightarrow> (string \<times> string \<times> string) list \<Rightarrow> string" where
  "log_lines clk t [] = []"
| "log_lines clk t ((level, message, filename) # evs) =
     log_entry_text (strftime (clk t)) level message filename @ [LF] @ log_lines clk (Suc t) evs"

text \<open>
  A notion of the proofs: everything but the log text and the number of clock readings
  is as before.
\<close>

definition same_storage :: "world \<Rightarrow> world \<Rightarrow> bool" where
  "same_storage w w' =
     (secure_folder w' = secure_folder w \<and> hash_db_file w' = hash_db_file w \<and>
      db_fault w' = db_fault w \<and> log_writable w' = log_writable w \<and> clock w' = clock w)"

text \<open>The names and digests of a snapshot, without size and modification time.\<close>

definition digests :: "hash_db \<Rightarrow> (string \<times> string) list" where
  "digests d = map (\<lambda>(n, i). (n, hash i)) d"

text \<open>The characters \<open>strftime\<close> writes.\<close>

definition timestamp_chars :: "char set" where
  "timestamp_chars = set ''0123456789-: ''"

text \<open>
  The regular file behind a directory entry that a scan takes: the entry resolves,
  following links, to a regular file that can be read and has a non-empty digest.
\<close>

definition accepted_file :: "(string \<Rightarrow> string) \<Rightarrow> node \<Rightarrow> file_data option" where
  "accepted_file sha256 n =
     (case stat n of
        Some (Regular f) \<Rightarrow> if readable f \<and> sha256 (content f) \<noteq> [] then Some f else None
      | _ \<Rightarrow> None)"

text \<open>
  The snapshot of a listing, entry by entry in listing order: one record, under the
  entry's name, for each entry with an accepted file.
\<close>

fun spec_snapshot :: "(string \<Rightarrow> string) \<Rightarrow> (string \<times> node) list \<Rightarrow> hash_db" where
  "spec_snapshot sha256 [] = []"
| "spec_snapshot sha256 ((n, node) # es) =
     (case accepted_file sha256 node of
        None \<Rightarrow> spec_snapshot sha256 es
      | Some f \<Rightarrow>
          (case mtime f of
             None \<Rightarrow> spec_snapshot sha256 es
           | Some d \<Rightarrow>
               (n, \<lparr>hash = sha256 (content f), size_bytes = length (content f),
                    modified_at = strftime d\<rparr>) # spec_snapshot sha256 es))"

section \<open>Example data\<close>

text \<open>
  A folder, a baseline and a clock on which the theorems below are instantiated.
  \<open>toy_digest\<close> stands in for SHA-256 there: the theorems hold for every digest function.
\<close>

definition toy_digest :: "string \<Rightarrow> string" where
  "toy_digest bytes = ''sha:'' @ bytes"

lift_definition demo_time :: datetime is "(2024, 1, 2, 3, 4, 5)"
  by (simp add: valid_datetime_def)

lift_definition demo_clock :: "nat \<Rightarrow> datetime" is "\<lambda>n. (2024, 1, 2, 3, 4, (5 + n) mod 60)"
  by (simp add: valid_datetime_def)

definition demo_file :: "string \<Rightarrow> file_data" where
  "demo_file bytes = \<lparr>content = bytes, readable = True, mtime = Some demo_time\<rparr>"

definition demo_folder :: "(string \<times> node) list" where
  "demo_folder =
     [(''a.txt'', Regular (demo_file ''alpha'')),
      (''b.txt'', Regular (demo_file ''beta'')),
      (''sub'', Directory),
      (''c.txt'', Regular (demo_file ''gamma''))]"

definition demo_baseline :: hash_db where
  "demo_baseline =
     [(''a.txt'', \<lparr>hash = ''sha:alpha'', size_bytes = 99, modified_at = ''1999-12-31 23:59:59''\<rparr>),
      (''b.txt'', \<lparr>hash = ''sha:old'', size_bytes = 4, modified_at = ''2024-01-02 03:04:05''\<rparr>),
      (''gone.txt'', \<lparr>hash = ''sha:gone'', size_bytes = 4, modified_at = ''2024-01-02 03:04:05''\<rparr>)]"

definition demo_snapshot :: hash_db where
  "demo_snapshot =
     [(''a.txt'', \<lparr>hash = ''sha:alpha'', size_bytes = 5, modified_at = ''2024-01-02 03:04:05''\<rparr>),
      (''b.txt'', \<lparr>hash = ''sha:beta'', size_bytes = 4, modified_at = ''2024-01-02 03:04:05''\<rparr>),
      (''c.txt'', \<lparr>hash = ''sha:gamma'', size_bytes = 5, modified_at = ''2024-01-02 03:04:05''\<rparr>)]"

definition demo_world :: world where
  "demo_world =
     \<lparr>secure_folder = Listing demo_folder, hash_db_file = Some (Json demo_baseline),
      db_fault = NoFault, log_file = Some [], log_writable = True,
      clock = demo_clock, tick = 0\<rparr>"

definition demo_results :: results where
  "demo_results = \<lparr>safe = [''a.txt''], modified = [''b.txt''], deleted = [''gone.txt''], new = [''c.txt'']\<rparr>"

text \<open>The same folder and baseline with other sizes and modification times.\<close>

lift_definition touched_time :: datetime is "(2025, 6, 7, 23, 8, 9)"
  by (simp add: valid_datetime_def)

definition touched_folder :: "(string \<times> node) list" where
  "touched_folder =
     [(''a.txt'', Regular ((demo_file ''alpha'')\<lparr>mtime := Some touched_time\<rparr>)),
      (''b.txt'', Regular (demo_file ''beta'')),
      (''sub'', Directory),
      (''c.txt'', Regular ((demo_file ''gamma'')\<lparr>mtime := Some touched_time\<rparr>))]"

definition touched_snapshot :: hash_db where
  "touched_snapshot =
     [(''a.txt'', \<lparr>hash = ''sha:alpha'', size_bytes = 5, modified_at = ''2025-06-07 23:08:09''\<rparr>),
      (''b.txt'', \<lparr>hash = ''sha:beta'', size_bytes = 4, modified_at = ''2024-01-02 03:04:05''\<rparr>),
      (''c.txt'', \<lparr>hash = ''sha:gamma'', size_bytes = 5, modified_at = ''2025-06-07 23:08:09''\<rparr>)]"

definition resized_baseline :: hash_db where
  "resized_baseline =
     [(''a.txt'', \<lparr>hash = ''sha:alpha'', size_bytes = 5, modified_at = ''2024-01-02 03:04:05''\<rparr>),
      (''b.txt'', \<lparr>hash = ''sha:old'', size_bytes = 1000, modified_at = ''2001-01-01 00:00:00''\<rparr>),
      (''gone.txt'', \<lparr>hash = ''sha:gone'', size_bytes = 0, modified_at = []\<rparr>)]"

definition touched_world :: world where
  "touched_world =
     demo_world\<lparr>secure_folder := Listing touched_folder, hash_db_file := Some (Json resized_baseline)\<rparr>"

text \<open>A log of five entries; the last names a file called \<open>INFO.txt\<close>.\<close>

definition demo_log :: string where
  "demo_log =
     ''[2024-01-02 03:04:05] INFO: File verified OK (File: '' @ [DQUOTE] @ ''a.txt'' @ [DQUOTE] @ '')'' @ [LF]
   @ ''[2024-01-02 03:04:06] WARNING: File integrity failed! Hash mismatch detected (File: ''
       @ [DQUOTE] @ ''b.txt'' @ [DQUOTE] @ '')'' @ [LF]
   @ ''[2024-01-02 03:04:07] ALERT: File has been deleted (File: '' @ [DQUOTE] @ ''gone.txt'' @ [DQUOTE] @ '')'' @ [LF]
   @ ''[2024-01-02 03:04:08] WARNING: File integrity failed! Hash mismatch detected (File: ''
       @ [DQUOTE] @ ''c.txt'' @ [DQUOTE] @ '')'' @ [LF]
   @ ''[2024-01-02 03:04:09] ALERT: Unknown file detected (new file added) (File: ''
       @ [DQUOTE] @ ''INFO.txt'' @ [DQUOTE] @ '')'' @ [LF]"

definition logged_world :: world where
  "logged_world = demo_world\<lparr>log_file := Some demo_log\<rparr>"


text \<open>
  A folder with a link to a regular file, a directory, a device, a dangling link, a link
  to a directory, an unreadable file and a file last modified in the year 999; and a
  store whose next write fails midway.
\<close>

lift_definition old_time :: datetime is "(999, 1, 2, 3, 4, 5)"
  by (simp add: valid_datetime_def)

definition link_target :: node where
  "link_target = Regular (demo_file ''target'')"

definition link_listing :: "(string \<times> node) list" where
  "link_listing =
     [(''link'', Symlink (Some link_target)), (''sub'', Directory), (''null'', Device),
      (''dangling'', Symlink None), (''sublink'', Symlink (Some Directory)),
      (''secret'', Regular ((demo_file ''key'')\<lparr>readable := False\<rparr>)),
      (''old.txt'', Regular ((demo_file ''old'')\<lparr>mtime := Some old_time\<rparr>))]"

definition link_snapshot :: hash_db where
  "link_snapshot =
     [(''link'', \<lparr>hash = ''sha:target'', size_bytes = 6, modified_at = ''2024-01-02 03:04:05''\<rparr>),
      (''old.txt'', \<lparr>hash = ''sha:old'', size_bytes = 3, modified_at = ''999-01-02 03:04:05''\<rparr>)]"

definition link_world :: world where
  "link_world = demo_world\<lparr>secure_folder := Listing link_listing\<rparr>"

text \<open>A folder with a file whose modification time no \<open>datetime\<close> can hold.\<close>

definition stale_listing :: "(string \<times> node) list" where
  "stale_listing =
     [(''a.txt'', Regular (demo_file ''alpha'')),
      (''future.bin'', Regular ((demo_file ''omega'')\<lparr>mtime := None\<rparr>))]"

definition stale_world :: world where
  "stale_world = demo_world\<lparr>secure_folder := Listing stale_listing\<rparr>"

definition failing_world :: world where
  "failing_world = demo_world\<lparr>db_fault := WriteFails\<rparr>"

section \<open>Timestamps and lines\<close>

lemma digit_in: "digit n \<in> timestamp_chars"
proof -
  have "digit n \<in> set ''0123456789''"
    unfolding digit_def by (rule nth_mem) simp
  then show ?thesis unfolding timestamp_chars_def by auto
qed

lemma str_nat_digits: "set (str_nat n) \<subseteq> timestamp_chars"
proof (induction n rule: str_nat.induct)
  case (1 n)
  show ?case
  proof (cases "n < 10")
    case True
    then show ?thesis using digit_in [of n] by (subst str_nat.simps) simp
  next
    case False
    then show ?thesis using 1 digit_in [of n] by (subst str_nat.simps) simp
  qed
qed

lemma zero_pad_digits: "set (zero_pad k n) \<subseteq> timestamp_chars"
proof -
  have "CHR ''0'' \<in> timestamp_chars" by (simp add: timestamp_chars_def)
  then show ?thesis using str_nat_digits [of n] by (auto simp: zero_pad_def)
qed

lemma strftime_chars: "set (strftime d) \<subseteq> timestamp_chars"
proof -
  have "CHR ''-'' \<in> timestamp_chars" "CHR '':'' \<in> timestamp_chars" "CHR '' '' \<in> timestamp_chars"
    by (simp_all add: timestamp_chars_def)
  then show ?thesis
    by (simp add: strftime_def zero_pad_digits str_nat_digits)
qed

lemma strftime_plain:
  "LF \<notin> set (strftime d)" "CR \<notin> set (strftime d)"
  "CHR ''['' \<notin> set (strftime d)" "CHR '']'' \<notin> set (strftime d)"
proof -
  have "LF \<notin> timestamp_chars" "CR \<notin> timestamp_chars"
    "CHR ''['' \<notin> timestamp_chars" "CHR '']'' \<notin> timestamp_chars"
    by (simp_all add: timestamp_chars_def)
  then show "LF \<notin> set (strftime d)" "CR \<notin> set (strftime d)"
    "CHR ''['' \<notin> set (strftime d)" "CHR '']'' \<notin> set (strftime d)"
    using strftime_chars [of d] by blast+
qed

lemma universal_newlines_id: "CR \<notin> set s \<Longrightarrow> universal_newlines s = s"
  by (induction s rule: universal_newlines.induct) auto

lemma keepends_one_line: "LF \<notin> set s \<Longrightarrow> keepends (s @ [LF]) = [s @ [LF]]"
  by (induction s) (auto split: list.splits)

lemma timestamp_of_entry:
  "CHR ''['' \<notin> set ts \<Longrightarrow> CHR '']'' \<notin> set ts \<Longrightarrow>
   timestamp_of (''['' @ ts @ ''] '' @ rest) = ts"
  by (auto simp: timestamp_of_def takeWhile_append filter_id_conv)

section \<open>Scanning\<close>

lemma concat_read_chunks: "concat (read_chunks bs) = bs"
proof (induction bs rule: read_chunks.induct)
  case (1 bs)
  show ?case
  proof (cases "take 4096 bs = []")
    case True
    then show ?thesis by (subst read_chunks.simps) simp
  next
    case False
    with 1 show ?thesis by (subst read_chunks.simps) simp
  qed
qed

lemma accepted_file_Some:
  "accepted_file sha256 node = Some f \<longleftrightarrow>
     stat node = Some (Regular f) \<and> readable f \<and> sha256 (content f) \<noteq> []"
  by (auto simp: accepted_file_def split: option.splits node.splits)

lemma accepted_file_None:
  "accepted_file sha256 node \<noteq> None \<longleftrightarrow>
     (\<exists>f. stat node = Some (Regular f) \<and> readable f \<and> sha256 (content f) \<noteq> [])"
  using accepted_file_Some [of sha256 node] by (cases "accepted_file sha256 node") auto

lemma scan_entry_cases:
  "scan_entry sha256 (n, node) cur =
     (case accepted_file sha256 node of
        None \<Rightarrow> Inr cur
      | Some f \<Rightarrow>
          (case mtime f of
             None \<Rightarrow> Inl ValueError
           | Some d \<Rightarrow>
               Inr (AList.update n
                      \<lparr>hash = sha256 (content f), size_bytes = length (content f),
                       modified_at = strftime d\<rparr> cur)))"
  by (cases "stat node")
     (auto simp: scan_entry_def accepted_file_def regular_file_def calculate_hash_def getsize_def
        getmtime_def fromtimestamp_def concat_read_chunks Let_def
        split: node.splits option.splits)

lemma update_fresh: "n \<notin> fst ` set cur \<Longrightarrow> AList.update n i cur = cur @ [(n, i)]"
  by (induction cur) auto

lemma scan_loop_Inr:
  assumes "scan_loop sha256 es cur = Inr S" and "distinct (map fst es)"
    and "fst ` set es \<inter> fst ` set cur = {}"
  shows "S = cur @ spec_snapshot sha256 es \<and>
         (\<forall>n node f. (n, node) \<in> set es \<and> accepted_file sha256 node = Some f \<longrightarrow> mtime f \<noteq> None)"
  using assms
proof (induction es arbitrary: cur)
  case Nil
  then show ?case by simp
next
  case (Cons e es)
  obtain n node where e: "e = (n, node)" by (cases e)
  from Cons.prems(2) e have d: "distinct (map fst es)" and n: "n \<notin> fst ` set es" by auto
  from Cons.prems(3) e have fresh: "n \<notin> fst ` set cur" and disj: "fst ` set es \<inter> fst ` set cur = {}"
    by auto
  show ?case
  proof (cases "accepted_file sha256 node")
    case None
    with Cons.prems(1) e have "scan_loop sha256 es cur = Inr S"
      by (simp add: scan_entry_cases)
    from Cons.IH [OF this d disj] None e show ?thesis by auto
  next
    case (Some f)
    with Cons.prems(1) e obtain d0 where m: "mtime f = Some d0"
      by (cases "mtime f") (auto simp: scan_entry_cases)
    let ?i = "\<lparr>hash = sha256 (content f), size_bytes = length (content f),
                modified_at = strftime d0\<rparr>"
    from Cons.prems(1) e Some m
    have run: "scan_loop sha256 es (cur @ [(n, ?i)]) = Inr S"
      by (simp add: scan_entry_cases update_fresh [OF fresh])
    from n disj have disj': "fst ` set es \<inter> fst ` set (cur @ [(n, ?i)]) = {}" by auto
    from Cons.IH [OF run d disj'] Some m e show ?thesis by auto
  qed
qed

lemma scan_loop_completes:
  assumes "\<forall>n node f. (n, node) \<in> set es \<and> accepted_file sha256 node = Some f \<longrightarrow> mtime f \<noteq> None"
  shows "\<exists>S. scan_loop sha256 es cur = Inr S"
  using assms
proof (induction es arbitrary: cur)
  case Nil
  then show ?case by simp
next
  case (Cons e es)
  obtain n node where e: "e = (n, node)" by (cases e)
  from Cons.prems have rest:
    "\<forall>n node f. (n, node) \<in> set es \<and> accepted_file sha256 node = Some f \<longrightarrow> mtime f \<noteq> None"
    by auto
  show ?case
  proof (cases "accepted_file sha256 node")
    case None
    with Cons.IH [OF rest, of cur] e show ?thesis by (simp add: scan_entry_cases)
  next
    case (Some f)
    with Cons.prems e obtain d0 where m: "mtime f = Some d0" by fastforce
    from Cons.IH [OF rest] Some m e show ?thesis by (simp add: scan_entry_cases)
  qed
qed

lemma keys_spec_snapshot:
  assumes "\<forall>n node f. (n, node) \<in> set es \<and> accepted_file sha256 node = Some f \<longrightarrow> mtime f \<noteq> None"
  shows "map fst (spec_snapshot sha256 es)
           = map fst (filter (\<lambda>(n, node). accepted_file sha256 node \<noteq> None) es)"
  using assms
proof (induction es)
  case Nil
  then show ?case by simp
next
  case (Cons e es)
  obtain n node where e: "e = (n, node)" by (cases e)
  from Cons.prems have rest:
    "\<forall>n node f. (n, node) \<in> set es \<and> accepted_file sha256 node = Some f \<longrightarrow> mtime f \<noteq> None"
    by auto
  show ?case
  proof (cases "accepted_file sha256 node")
    case None
    with Cons.IH [OF rest] e show ?thesis by simp
  next
    case (Some f)
    with Cons.prems e obtain d0 where m: "mtime f = Some d0" by fastforce
    from Cons.IH [OF rest] Some m e show ?thesis by simp
  qed
qed

lemma spec_snapshot_names: "(n, i) \<in> set (spec_snapshot sha256 es) \<Longrightarrow> n \<in> fst ` set es"
  by (induction es) (auto split: option.splits)

lemma map_of_spec_snapshot:
  assumes "distinct (map fst es)" and "(n, node) \<in> set es"
  shows "map_of (spec_snapshot sha256 es) n =
     (case accepted_file sha256 node of
        None \<Rightarrow> None
      | Some f \<Rightarrow>
          (case mtime f of
             None \<Rightarrow> None
           | Some d \<Rightarrow> Some \<lparr>hash = sha256 (content f), size_bytes = length (content f),
                              modified_at = strftime d\<rparr>))"
  using assms
proof (induction es)
  case Nil
  then show ?case by simp
next
  case (Cons e es)
  obtain m node' where e: "e = (m, node')" by (cases e)
  show ?case
  proof (cases "n = m")
    case True
    with Cons.prems e have node: "node' = node" and notin: "n \<notin> fst ` set es"
      by (auto simp: image_iff)
    from notin spec_snapshot_names [of n _ sha256 es] have "map_of (spec_snapshot sha256 es) n = None"
      by (auto simp: map_of_eq_None_iff)
    with True node e show ?thesis by (simp split: option.splits)
  next
    case False
    with Cons.prems e have "distinct (map fst es)" and "(n, node) \<in> set es" by auto
    from Cons.IH [OF this] False e show ?thesis by (simp split: option.splits)
  qed
qed

lemma scan_files_Listing:
  assumes "scan_files sha256 w = Inr S" and "secure_folder w = Listing listing"
    and "distinct (map fst listing)"
  shows "S = spec_snapshot sha256 listing"
    and "\<forall>n node f. (n, node) \<in> set listing \<and> accepted_file sha256 node = Some f \<longrightarrow> mtime f \<noteq> None"
proof -
  from assms(1,2) have "scan_loop sha256 listing [] = Inr S" by (simp add: scan_files_def)
  from scan_loop_Inr [OF this assms(3)]
  show "S = spec_snapshot sha256 listing"
    and "\<forall>n node f. (n, node) \<in> set listing \<and> accepted_file sha256 node = Some f \<longrightarrow> mtime f \<noteq> None"
    by simp_all
qed

lemma scan_entry_distinct:
  "scan_entry sha256 e cur = Inr cur' \<Longrightarrow> distinct (map fst cur) \<Longrightarrow> distinct (map fst cur')"
  by (cases e)
     (auto simp: scan_entry_cases AList.distinct_update split: option.splits)

lemma scan_loop_distinct:
  "scan_loop sha256 es cur = Inr S \<Longrightarrow> distinct (map fst cur) \<Longrightarrow> distinct (map fst S)"
proof (induction es arbitrary: cur)
  case Nil
  then show ?case by simp
next
  case (Cons e es)
  from Cons.prems(1) obtain cur' where
    1: "scan_entry sha256 e cur = Inr cur'" and 2: "scan_loop sha256 es cur' = Inr S"
    by (auto split: sum.splits)
  from Cons.IH [OF 2 scan_entry_distinct [OF 1 Cons.prems(2)]] show ?case .
qed

lemma scan_files_distinct: "scan_files sha256 w = Inr S \<Longrightarrow> distinct (map fst S)"
  by (cases "secure_folder w") (auto simp: scan_files_def dest: scan_loop_distinct)

lemma scan_files_folder:
  "secure_folder w' = secure_folder w \<Longrightarrow> scan_files sha256 w' = scan_files sha256 w"
  by (simp add: scan_files_def)

lemma scan_loop_raises:
  assumes "(n, node) \<in> set es" and "accepted_file sha256 node = Some f" and "mtime f = None"
  shows "scan_loop sha256 es cur = Inl ValueError"
  using assms(1)
proof (induction es arbitrary: cur)
  case Nil
  then show ?case by simp
next
  case (Cons e es)
  obtain m node' where e: "e = (m, node')" by (cases e)
  show ?case
  proof (cases "scan_entry sha256 e cur")
    case (Inl err)
    then have "err = ValueError"
      unfolding e by (auto simp: scan_entry_cases split: option.splits)
    with Inl show ?thesis by simp
  next
    case (Inr cur')
    with assms(2,3) e have "e \<noteq> (n, node)"
      by (auto simp: scan_entry_cases)
    with Cons.prems have "(n, node) \<in> set es" by simp
    from Cons.IH [OF this] Inr show ?thesis by simp
  qed
qed

lemma scan_files_completes:
  assumes "secure_folder w = Listing listing"
    and "\<forall>n node f. (n, node) \<in> set listing \<and> accepted_file sha256 node = Some f \<longrightarrow> mtime f \<noteq> None"
  shows "\<exists>S. scan_files sha256 w = Inr S"
  using assms(1) scan_loop_completes [OF assms(2), of "[]"] by (simp add: scan_files_def)

section \<open>The two loops of check_integrity\<close>

lemma log_activity_Inr:
  assumes "log_activity level message (Some filename) w = (Inr line, w')"
  shows "log_text w' = log_text w @ log_lines (clock w) (tick w) [(level, message, filename)]"
    and "tick w' = Suc (tick w)" and "same_storage w w'"
  using assms
  by (auto simp: log_activity_def Let_def log_text_def same_storage_def split: if_splits)

lemma same_storage_refl: "same_storage w w"
  by (simp add: same_storage_def)

lemma check_current_Inr:
  "check_current B S res w = (Inr res', w') \<Longrightarrow>
     safe res' = safe res @ safe (spec_classify B S) \<and>
     modified res' = modified res @ modified (spec_classify B S) \<and>
     new res' = new res @ new (spec_classify B S) \<and>
     deleted res' = deleted res \<and>
     log_text w' = log_text w @ log_lines (clock w) (tick w) (map (current_event B) S) \<and>
     tick w' = tick w + length S \<and> same_storage w w'"
proof (induction S arbitrary: res w)
  case Nil
  then show ?case by (simp add: spec_classify_def same_storage_refl)
next
  case (Cons entry S)
  obtain filename info where entry: "entry = (filename, info)" by (cases entry)
  show ?case
  proof (cases "map_of B filename")
    case None
    with Cons.prems entry obtain line w1 where
      la: "log_activity ''ALERT'' ''Unknown file detected (new file added)'' (Some filename) w
             = (Inr line, w1)"
      and rest: "check_current B S (res\<lparr>new := new res @ [filename]\<rparr>) w1 = (Inr res', w')"
      by (auto split: prod.splits sum.splits)
    from Cons.IH [OF rest] log_activity_Inr [OF la] None entry show ?thesis
      by (auto simp: spec_classify_def current_event_def same_storage_def)
  next
    case (Some old)
    show ?thesis
    proof (cases "hash old = hash info")
      case True
      with Cons.prems entry Some obtain line w1 where
        la: "log_activity ''INFO'' ''File verified OK'' (Some filename) w = (Inr line, w1)"
        and rest: "check_current B S (res\<lparr>safe := safe res @ [filename]\<rparr>) w1 = (Inr res', w')"
        by (auto split: prod.splits sum.splits)
      from Cons.IH [OF rest] log_activity_Inr [OF la] Some True entry show ?thesis
        by (auto simp: spec_classify_def current_event_def same_storage_def)
    next
      case False
      with Cons.prems entry Some obtain line w1 where
        la: "log_activity ''WARNING'' ''File integrity failed! Hash mismatch detected''
               (Some filename) w = (Inr line, w1)"
        and rest: "check_current B S (res\<lparr>modified := modified res @ [filename]\<rparr>) w1
               = (Inr res', w')"
        by (auto split: prod.splits sum.splits)
      from Cons.IH [OF rest] log_activity_Inr [OF la] Some False entry show ?thesis
        by (auto simp: spec_classify_def current_event_def same_storage_def)
    qed
  qed
qed

lemma check_missing_Inr:
  "check_missing ks S res w = (Inr res', w') \<Longrightarrow>
     safe res' = safe res \<and> modified res' = modified res \<and> new res' = new res \<and>
     deleted res' = deleted res @ filter (\<lambda>n. map_of S n = None) ks \<and>
     log_text w' = log_text w @ log_lines (clock w) (tick w)
        (map deleted_event (filter (\<lambda>n. map_of S n = None) ks)) \<and>
     same_storage w w'"
proof (induction ks arbitrary: res w)
  case Nil
  then show ?case by (simp add: same_storage_refl)
next
  case (Cons filename ks)
  show ?case
  proof (cases "map_of S filename = None")
    case True
    with Cons.prems obtain line w1 where
      la: "log_activity ''ALERT'' ''File has been deleted'' (Some filename) w = (Inr line, w1)"
      and rest: "check_missing ks S (res\<lparr>deleted := deleted res @ [filename]\<rparr>) w1
             = (Inr res', w')"
      by (auto split: prod.splits sum.splits)
    from Cons.IH [OF rest] log_activity_Inr [OF la] True show ?thesis
      by (auto simp: deleted_event_def same_storage_def)
  next
    case False
    with Cons.prems have "check_missing ks S res w = (Inr res', w')" by auto
    from Cons.IH [OF this] False show ?thesis by auto
  qed
qed

lemma log_lines_append:
  "log_lines clk t (xs @ ys) = log_lines clk (t::nat) xs @ log_lines clk (t + length xs) ys"
  by (induction xs arbitrary: t) auto

lemma check_integrity_Inr:
  assumes "check_integrity sha256 w = (Inr r, w')"
  obtains S where "scan_files sha256 w = Inr S"
    and "r = spec_classify (load_hash_db w) S"
    and "log_text w' = log_text w @ log_lines (clock w) (tick w)
           (map (current_event (load_hash_db w)) S
            @ map deleted_event (deleted (spec_classify (load_hash_db w) S)))"
    and "hash_db_file w' = Some (Json S)"
    and "secure_folder w' = secure_folder w"
proof -
  let ?B = "load_hash_db w"
  let ?r0 = "\<lparr>safe = [], modified = [], deleted = [], new = []\<rparr>"
  from assms obtain S where scan: "scan_files sha256 w = Inr S"
    by (cases "scan_files sha256 w") (auto simp: check_integrity_def Let_def)
  with assms obtain r1 w1 w2 where
    c: "check_current ?B S ?r0 w = (Inr r1, w1)"
    and m: "check_missing (dict_keys ?B) S r1 w1 = (Inr r, w2)"
    and s: "save_hash_db S w2 = (Inr (), w')"
    by (auto simp: check_integrity_def Let_def split: prod.splits sum.splits)
  note C = check_current_Inr [OF c] and M = check_missing_Inr [OF m]
  from s have St: "hash_db_file w' = Some (Json S)" "secure_folder w' = secure_folder w2"
    "log_text w' = log_text w2"
    by (auto simp: save_hash_db_def log_text_def split: write_fault.splits)
  from C M have 1: "r = spec_classify ?B S"
    by (cases r) (simp add: spec_classify_def)
  from C M St have 2: "log_text w' = log_text w @ log_lines (clock w) (tick w)
           (map (current_event ?B) S @ map deleted_event (deleted (spec_classify ?B S)))"
    by (simp add: log_lines_append same_storage_def spec_classify_def)
  from C M St have 3: "secure_folder w' = secure_folder w" by (simp add: same_storage_def)
  from that [OF scan 1 2 St(1) 3] show thesis .
qed

section \<open>The four filters\<close>

lemma mem_keys_filter:
  "n \<in> fst ` {x \<in> set S. P x} \<longleftrightarrow> (\<exists>i. (n, i) \<in> set S \<and> P (n, i))"
  by force

lemma spec_classify_safe_iff:
  assumes "distinct (map fst S)"
  shows "n \<in> set (safe (spec_classify B S)) \<longleftrightarrow>
     (\<exists>old cur. map_of B n = Some old \<and> map_of S n = Some cur \<and> hash old = hash cur)"
proof -
  have "n \<in> set (safe (spec_classify B S)) \<longleftrightarrow>
      (\<exists>i. map_of S n = Some i \<and> (case map_of B n of Some old \<Rightarrow> hash old = hash i | None \<Rightarrow> False))"
    using assms by (simp add: spec_classify_def mem_keys_filter)
  then show ?thesis by (cases "map_of B n") auto
qed

lemma spec_classify_modified_iff:
  assumes "distinct (map fst S)"
  shows "n \<in> set (modified (spec_classify B S)) \<longleftrightarrow>
     (\<exists>old cur. map_of B n = Some old \<and> map_of S n = Some cur \<and> hash old \<noteq> hash cur)"
proof -
  have "n \<in> set (modified (spec_classify B S)) \<longleftrightarrow>
      (\<exists>i. map_of S n = Some i \<and> (case map_of B n of Some old \<Rightarrow> hash old \<noteq> hash i | None \<Rightarrow> False))"
    using assms by (simp add: spec_classify_def mem_keys_filter)
  then show ?thesis by (cases "map_of B n") auto
qed

lemma mem_dict_keys: "n \<in> set (dict_keys d) \<longleftrightarrow> map_of d n \<noteq> None"
  by (simp add: dict_keys_def map_of_eq_None_iff)

lemma spec_classify_new_iff:
  "n \<in> set (new (spec_classify B S)) \<longleftrightarrow> n \<in> set (dict_keys S) \<and> n \<notin> set (dict_keys B)"
proof -
  have "n \<in> set (new (spec_classify B S)) \<longleftrightarrow> (\<exists>i. (n, i) \<in> set S) \<and> map_of B n = None"
    by (simp add: spec_classify_def mem_keys_filter)
  also have "(\<exists>i. (n, i) \<in> set S) \<longleftrightarrow> n \<in> set (dict_keys S)"
    by (force simp: dict_keys_def)
  finally show ?thesis by (simp add: mem_dict_keys)
qed

lemma spec_classify_deleted_iff:
  "n \<in> set (deleted (spec_classify B S)) \<longleftrightarrow> n \<in> set (dict_keys B) \<and> n \<notin> set (dict_keys S)"
  by (auto simp: spec_classify_def mem_dict_keys)

lemma current_event_class:
  assumes "distinct (map fst S)" and "(n, i) \<in> set S"
  shows "current_event B (n, i) =
     (if n \<in> set (safe (spec_classify B S)) then (''INFO'', ''File verified OK'', n)
      else if n \<in> set (modified (spec_classify B S))
        then (''WARNING'', ''File integrity failed! Hash mismatch detected'', n)
      else (''ALERT'', ''Unknown file detected (new file added)'', n))"
proof -
  from assms have S: "map_of S n = Some i" by simp
  show ?thesis
  proof (cases "map_of B n")
    case None
    then show ?thesis
      by (simp add: spec_classify_safe_iff [OF assms(1)] spec_classify_modified_iff [OF assms(1)]
          current_event_def)
  next
    case (Some old)
    then show ?thesis using S
      by (simp add: spec_classify_safe_iff [OF assms(1)] spec_classify_modified_iff [OF assms(1)]
          current_event_def)
  qed
qed

section \<open>Completion\<close>

lemma log_activity_writable:
  assumes "log_writable w"
  shows "\<exists>line w'. log_activity level message f w = (Inr line, w') \<and>
           log_writable w' \<and> db_fault w' = db_fault w"
  using assms by (simp add: log_activity_def Let_def)

lemma check_current_completes:
  "log_writable w \<Longrightarrow>
   \<exists>res' w'. check_current B S res w = (Inr res', w') \<and> log_writable w' \<and> db_fault w' = db_fault w"
proof (induction S arbitrary: res w)
  case Nil
  then show ?case by simp
next
  case (Cons entry S)
  obtain filename info where entry: "entry = (filename, info)" by (cases entry)
  have step: "\<exists>res' w'. (case log_activity level message (Some filename) w of
                 (Inl e, w') \<Rightarrow> (Inl e, w')
               | (Inr line, w') \<Rightarrow> check_current B S res1 w') = (Inr res', w')
             \<and> log_writable w' \<and> db_fault w' = db_fault w" for level message res1
  proof -
    from log_activity_writable [OF Cons.prems] obtain line w1 where
      la: "log_activity level message (Some filename) w = (Inr line, w1)"
      and w1: "log_writable w1" "db_fault w1 = db_fault w" by blast
    from Cons.IH [OF w1(1), of res1] w1(2) la show ?thesis by auto
  qed
  show ?case
    unfolding entry check_current.simps
    by (cases "map_of B filename") (simp_all add: step)
qed

lemma check_missing_completes:
  "log_writable w \<Longrightarrow>
   \<exists>res' w'. check_missing ks S res w = (Inr res', w') \<and> log_writable w' \<and> db_fault w' = db_fault w"
proof (induction ks arbitrary: res w)
  case Nil
  then show ?case by simp
next
  case (Cons filename ks)
  show ?case
  proof (cases "map_of S filename = None")
    case True
    from log_activity_writable [OF Cons.prems] obtain line w1 where
      la: "log_activity ''ALERT'' ''File has been deleted'' (Some filename) w = (Inr line, w1)"
      and w1: "log_writable w1" "db_fault w1 = db_fault w" by blast
    from Cons.IH [OF w1(1), of "res\<lparr>deleted := deleted res @ [filename]\<rparr>"] w1(2) la True
    show ?thesis by auto
  next
    case False
    with Cons.IH [OF Cons.prems, of res] show ?thesis by auto
  qed
qed

lemma check_integrity_completes:
  assumes "log_writable w" and "db_fault w = NoFault" and "scan_files sha256 w = Inr S"
  shows "\<exists>r w'. check_integrity sha256 w = (Inr r, w')"
proof -
  let ?B = "load_hash_db w"
  let ?r0 = "\<lparr>safe = [], modified = [], deleted = [], new = []\<rparr>"
  from check_current_completes [OF assms(1)] obtain r1 w1 where
    c: "check_current ?B S ?r0 w = (Inr r1, w1)" and w1: "log_writable w1" "db_fault w1 = db_fault w"
    by blast
  from check_missing_completes [OF w1(1)] obtain r2 w2 where
    m: "check_missing (dict_keys ?B) S r1 w1 = (Inr r2, w2)" and w2: "db_fault w2 = db_fault w1"
    by blast
  from w1 w2 assms have "db_fault w2 = NoFault" by simp
  then have "\<exists>w3. save_hash_db S w2 = (Inr (), w3)" by (simp add: save_hash_db_def)
  with c m assms(3) show ?thesis by (auto simp: check_integrity_def Let_def)
qed

lemma create_baseline_Inr:
  assumes "create_baseline sha256 w = (Inr n, w1)"
  obtains S where "scan_files sha256 w = Inr S" and "hash_db_file w1 = Some (Json S)"
    and "secure_folder w1 = secure_folder w" and "n = length S"
    and "log_writable w1" and "db_fault w1 = NoFault"
proof -
  from assms obtain S where scan: "scan_files sha256 w = Inr S"
    by (cases "scan_files sha256 w") (auto simp: create_baseline_def)
  with assms have "hash_db_file w1 = Some (Json S)" "secure_folder w1 = secure_folder w"
    "n = length S" "log_writable w1" "db_fault w1 = NoFault"
    by (auto simp: create_baseline_def save_hash_db_def log_activity_def Let_def
             split: write_fault.splits if_splits)
  with scan that show thesis by blast
qed

lemma spec_classify_self:
  assumes "distinct (map fst S)"
  shows "spec_classify S S = \<lparr>safe = dict_keys S, modified = [], deleted = [], new = []\<rparr>"
proof -
  have 1: "filter (\<lambda>(n, i). case map_of S n of Some old \<Rightarrow> hash old = hash i | None \<Rightarrow> False) S = S"
    using assms by (auto simp: filter_id_conv)
  have 2: "filter (\<lambda>(n, i). case map_of S n of Some old \<Rightarrow> hash old \<noteq> hash i | None \<Rightarrow> False) S = []"
    using assms by (auto simp: filter_empty_conv)
  have 3: "filter (\<lambda>(n, i). map_of S n = None) S = []"
    using assms by (auto simp: filter_empty_conv)
  have 4: "filter (\<lambda>n. map_of S n = None) (dict_keys S) = []"
    by (auto simp: filter_empty_conv mem_dict_keys)
  show ?thesis
    unfolding spec_classify_def 1 2 3 4 by (simp add: dict_keys_def)
qed

section \<open>Digests only\<close>

lemma map_of_digests: "map_of (digests d) n = map_option hash (map_of d n)"
  by (induction d) (auto simp: digests_def)

lemma keys_digests: "dict_keys d = map fst (digests d)"
  by (induction d) (auto simp: digests_def dict_keys_def)

lemma filter_digests:
  "map fst (filter (\<lambda>(n, i). P n (hash i)) S) = map fst (filter (\<lambda>(n, h). P n h) (digests S))"
  by (induction S) (auto simp: digests_def)

lemma spec_classify_by_digests:
  "spec_classify B S =
     \<lparr>safe = map fst (filter (\<lambda>(n, h). map_of (digests B) n = Some h) (digests S)),
      modified = map fst (filter (\<lambda>(n, h). case map_of (digests B) n of Some oh \<Rightarrow> oh \<noteq> h | None \<Rightarrow> False) (digests S)),
      deleted = filter (\<lambda>n. map_of (digests S) n = None) (map fst (digests B)),
      new = map fst (filter (\<lambda>(n, h). map_of (digests B) n = None) (digests S))\<rparr>"
proof -
  have 1: "(\<lambda>(n, i). case map_of B n of Some old \<Rightarrow> hash old = hash i | None \<Rightarrow> False)
      = (\<lambda>(n, i). (\<lambda>n h. map_of (digests B) n = Some h) n (hash i))"
    by (auto simp: fun_eq_iff map_of_digests split: option.splits)
  have 2: "(\<lambda>(n, i). case map_of B n of Some old \<Rightarrow> hash old \<noteq> hash i | None \<Rightarrow> False)
      = (\<lambda>(n, i). (\<lambda>n h. case map_of (digests B) n of Some oh \<Rightarrow> oh \<noteq> h | None \<Rightarrow> False) n (hash i))"
    by (auto simp: fun_eq_iff map_of_digests split: option.splits)
  have 3: "(\<lambda>(n, i). map_of B n = None)
      = (\<lambda>(n, i :: file_info). (\<lambda>n h. map_of (digests B) n = None) n (hash i))"
    by (auto simp: fun_eq_iff map_of_digests)
  have 4: "(\<lambda>n. map_of S n = None) = (\<lambda>n. map_of (digests S) n = None)"
    by (auto simp: fun_eq_iff map_of_digests)
  show ?thesis
    unfolding spec_classify_def keys_digests 1 2 3 4
    by (simp only:
        filter_digests [of "\<lambda>n h. map_of (digests B) n = Some h"]
        filter_digests [of "\<lambda>n h. case map_of (digests B) n of Some oh \<Rightarrow> oh \<noteq> h | None \<Rightarrow> False"]
        filter_digests [of "\<lambda>n h. map_of (digests B) n = None"])
qed

lemma spec_classify_digests_cong:
  "digests B = digests B' \<Longrightarrow> digests S = digests S' \<Longrightarrow> spec_classify B S = spec_classify B' S'"
  by (simp add: spec_classify_by_digests)

section \<open>The loop of parse_logs\<close>

lemma parse_loop_counts:
  "info (parse_loop logs st) = info st + length (filter (\<lambda>l. sublist ''INFO'' l) logs)"
  "warning (parse_loop logs st) = warning st +
     length (filter (\<lambda>l. \<not> sublist ''INFO'' l \<and> sublist ''WARNING'' l) logs)"
  "alert (parse_loop logs st) = alert st +
     length (filter (\<lambda>l. \<not> sublist ''INFO'' l \<and> \<not> sublist ''WARNING'' l \<and> sublist ''ALERT'' l) logs)"
  "total_logs (parse_loop logs st) = total_logs st"
  "recent_logs (parse_loop logs st) = recent_logs st"
  by (induction logs arbitrary: st; simp add: parse_line_def)+

lemma parse_loop_last_anomaly:
  "last_anomaly (parse_loop logs st) =
     (let anomalies = filter (\<lambda>l. \<not> sublist ''INFO'' l \<and> (sublist ''WARNING'' l \<or> sublist ''ALERT'' l)) logs
      in if anomalies = [] then last_anomaly st else Some (timestamp_of (last anomalies)))"
  by (induction logs arbitrary: st) (auto simp: parse_line_def Let_def)

lemma filter_three_le:
  "length (filter P xs) + length (filter (\<lambda>x. \<not> P x \<and> Q x) xs)
     + length (filter (\<lambda>x. \<not> P x \<and> \<not> Q x \<and> R x) xs) \<le> length xs"
  by (induction xs) auto


lemma parse_logs_Some:
  assumes "log_file w = Some text"
  shows "total_logs (parse_logs w) = length (readlines text)"
    and "info (parse_logs w) = length (filter (\<lambda>l. sublist ''INFO'' l) (readlines text))"
    and "warning (parse_logs w) =
       length (filter (\<lambda>l. \<not> sublist ''INFO'' l \<and> sublist ''WARNING'' l) (readlines text))"
    and "alert (parse_logs w) =
       length (filter (\<lambda>l. \<not> sublist ''INFO'' l \<and> \<not> sublist ''WARNING'' l \<and> sublist ''ALERT'' l)
                 (readlines text))"
    and "last_anomaly (parse_logs w) =
       (let anomalies = filter (\<lambda>l. \<not> sublist ''INFO'' l \<and> (sublist ''WARNING'' l \<or> sublist ''ALERT'' l))
                          (readlines text)
        in if anomalies = [] then None else Some (timestamp_of (last anomalies)))"
    and "recent_logs (parse_logs w) = rev (drop (length (readlines text) - 10) (readlines text))"
  using assms
  by (simp_all add: parse_logs_def Let_def parse_loop_counts parse_loop_last_anomaly)

lemma parse_logs_None:
  assumes "log_file w = None"
  shows "parse_logs w = \<lparr>total_logs = 0, info = 0, warning = 0, alert = 0,
                          last_anomaly = None, recent_logs = []\<rparr>"
  using assms by (simp add: parse_logs_def)

lemma timestamp_of_log_entry:
  "timestamp_of (log_entry_text (strftime d) level message filename @ rest) = strftime d"
proof -
  have "log_entry_text (strftime d) level message filename @ rest
      = ''['' @ strftime d @ ''] '' @ (level @ '': '' @ message
          @ (if filename \<noteq> [] then '' (File: '' @ [DQUOTE] @ filename @ [DQUOTE] @ '')'' else [])
          @ rest)"
    by (simp add: log_entry_text_def)
  then show ?thesis
    by (simp only: timestamp_of_entry [OF strftime_plain(3) strftime_plain(4)])
qed

lemma reset_line:
  "readlines (''['' @ ts @ ''] INFO: Log system has been reset'' @ [LF])
     = [''['' @ ts @ ''] INFO: Log system has been reset'' @ [LF]]"
  if "LF \<notin> set ts" "CR \<notin> set ts"
proof -
  let ?s = "''['' @ ts @ ''] INFO: Log system has been reset''"
  have cr: "CR \<notin> set (?s @ [LF])" and lf: "LF \<notin> set ?s" using that by simp_all
  have "keepends (universal_newlines (?s @ [LF])) = [?s @ [LF]]"
    unfolding universal_newlines_id [OF cr] by (rule keepends_one_line [OF lf])
  then show ?thesis by (simp add: readlines_def)
qed

lemma reset_line_info: "sublist ''INFO'' (''['' @ ts @ ''] INFO: Log system has been reset'' @ [LF])"
  unfolding sublist_def
  by (rule exI [of _ "''['' @ ts @ ''] ''"], rule exI [of _ "'': Log system has been reset'' @ [LF]"])
    simp

section \<open>The example run\<close>

lemma demo_times:
  "strftime demo_time = ''2024-01-02 03:04:05''"
  "strftime touched_time = ''2025-06-07 23:08:09''"
  "strftime old_time = ''999-01-02 03:04:05''"
  by (simp_all add: strftime_def zero_pad_def str_nat.simps digit_def
      dt_year.rep_eq dt_month.rep_eq dt_day.rep_eq dt_hour.rep_eq dt_minute.rep_eq dt_second.rep_eq
      demo_time.rep_eq touched_time.rep_eq old_time.rep_eq)

lemma demo_scan: "scan_files toy_digest demo_world = Inr demo_snapshot"
  by (simp add: scan_files_def scan_entry_cases accepted_file_def demo_times demo_snapshot_def
      demo_world_def demo_folder_def demo_file_def toy_digest_def)

lemma demo_load: "load_hash_db demo_world = demo_baseline"
  by (simp add: load_hash_db_def demo_world_def)

lemma demo_check: "fst (check_integrity toy_digest demo_world) = Inr demo_results"
  unfolding check_integrity_def demo_scan demo_load
  by (simp add: log_activity_def save_hash_db_def dict_keys_def Let_def demo_world_def
      demo_baseline_def demo_results_def demo_snapshot_def)

lemma demo_stamp:
  "strftime (demo_clock 0) = ''2024-01-02 03:04:05''"
  "strftime (demo_clock (Suc 0)) = ''2024-01-02 03:04:06''"
  "strftime (demo_clock (Suc (Suc 0))) = ''2024-01-02 03:04:07''"
  "strftime (demo_clock (Suc (Suc (Suc 0)))) = ''2024-01-02 03:04:08''"
  by (simp_all add: strftime_def zero_pad_def str_nat.simps digit_def
      dt_year.rep_eq dt_month.rep_eq dt_day.rep_eq dt_hour.rep_eq dt_minute.rep_eq dt_second.rep_eq
      demo_clock.rep_eq)

lemma touched_scan: "scan_files toy_digest touched_world = Inr touched_snapshot"
  by (simp add: scan_files_def scan_entry_cases accepted_file_def demo_times touched_snapshot_def
      touched_world_def touched_folder_def demo_file_def toy_digest_def)

lemma touched_load: "load_hash_db touched_world = resized_baseline"
  by (simp add: load_hash_db_def touched_world_def)

lemma readlines_demo_log:
  "readlines demo_log =
    [''[2024-01-02 03:04:05] INFO: File verified OK (File: '' @ [DQUOTE] @ ''a.txt'' @ [DQUOTE] @ '')'' @ [LF],
     ''[2024-01-02 03:04:06] WARNING: File integrity failed! Hash mismatch detected (File: ''
       @ [DQUOTE] @ ''b.txt'' @ [DQUOTE] @ '')'' @ [LF],
     ''[2024-01-02 03:04:07] ALERT: File has been deleted (File: '' @ [DQUOTE] @ ''gone.txt'' @ [DQUOTE] @ '')'' @ [LF],
     ''[2024-01-02 03:04:08] WARNING: File integrity failed! Hash mismatch detected (File: ''
       @ [DQUOTE] @ ''c.txt'' @ [DQUOTE] @ '')'' @ [LF],
     ''[2024-01-02 03:04:09] ALERT: Unknown file detected (new file added) (File: ''
       @ [DQUOTE] @ ''INFO.txt'' @ [DQUOTE] @ '')'' @ [LF]]"
  by (simp add: readlines_def demo_log_def)

lemma demo_parse:
  "total_logs (parse_logs logged_world) = 5" "info (parse_logs logged_world) = 2"
  "warning (parse_logs logged_world) = 2" "alert (parse_logs logged_world) = 1"
  "last_anomaly (parse_logs logged_world) = Some ''2024-01-02 03:04:08''"
proof -
  have l: "log_file logged_world = Some demo_log" by (simp add: logged_world_def)
  show "total_logs (parse_logs logged_world) = 5" "info (parse_logs logged_world) = 2"
    "warning (parse_logs logged_world) = 2" "alert (parse_logs logged_world) = 1"
    "last_anomaly (parse_logs logged_world) = Some ''2024-01-02 03:04:08''"
    unfolding parse_logs_Some [OF l] readlines_demo_log
    by (simp_all add: sublist_Cons_right timestamp_of_def)
qed

lemma link_scan: "scan_files toy_digest link_world = Inr link_snapshot"
  by (simp add: scan_files_def scan_entry_cases accepted_file_def demo_times link_snapshot_def
      link_world_def link_listing_def link_target_def demo_file_def toy_digest_def)

section \<open>Integrity check\<close>

text \<open>
  C1. A check that completes returns four lists of names. With \<open>B\<close> the baseline loaded
  and \<open>S\<close> the snapshot scanned by the call: a name is \<open>safe\<close> exactly when it is in both
  with equal digests, \<open>modified\<close> exactly when it is in both with different digests, \<open>new\<close>
  exactly when it is in \<open>S\<close> only, \<open>deleted\<close> exactly when it is in \<open>B\<close> only; the four are
  pairwise disjoint and together are the names of \<open>S\<close> and \<open>B\<close>. The log grows by one
  entry per name of \<open>S\<close>, in the order of \<open>S\<close>: INFO "File verified OK" for a safe name,
  WARNING "File integrity failed! Hash mismatch detected" for a modified one, ALERT
  "Unknown file detected (new file added)" for a new one; then by one ALERT
  "File has been deleted" per deleted name.
\<close>

theorem check_integrity_classification:
  assumes "check_integrity sha256 w = (Inr r, w')"
  shows "\<exists>S. scan_files sha256 w = Inr S \<and> (let B = load_hash_db w in
     (\<forall>n. n \<in> set (safe r) \<longleftrightarrow>
        (\<exists>old cur. map_of B n = Some old \<and> map_of S n = Some cur \<and> hash old = hash cur)) \<and>
     (\<forall>n. n \<in> set (modified r) \<longleftrightarrow>
        (\<exists>old cur. map_of B n = Some old \<and> map_of S n = Some cur \<and> hash old \<noteq> hash cur)) \<and>
     (\<forall>n. n \<in> set (new r) \<longleftrightarrow> n \<in> set (dict_keys S) \<and> n \<notin> set (dict_keys B)) \<and>
     (\<forall>n. n \<in> set (deleted r) \<longleftrightarrow> n \<in> set (dict_keys B) \<and> n \<notin> set (dict_keys S)) \<and>
     set (safe r) \<inter> set (modified r) = {} \<and> set (safe r) \<inter> set (new r) = {} \<and>
     set (safe r) \<inter> set (deleted r) = {} \<and> set (modified r) \<inter> set (new r) = {} \<and>
     set (modified r) \<inter> set (deleted r) = {} \<and> set (new r) \<inter> set (deleted r) = {} \<and>
     set (safe r) \<union> set (modified r) \<union> set (new r) \<union> set (deleted r)
       = set (dict_keys S) \<union> set (dict_keys B) \<and>
     log_text w' = log_text w @ log_lines (clock w) (tick w)
       (map (\<lambda>(n, i).
               if n \<in> set (safe r) then (''INFO'', ''File verified OK'', n)
               else if n \<in> set (modified r)
                 then (''WARNING'', ''File integrity failed! Hash mismatch detected'', n)
               else (''ALERT'', ''Unknown file detected (new file added)'', n)) S
        @ map (\<lambda>n. (''ALERT'', ''File has been deleted'', n)) (deleted r)))"
proof -
  define B where "B = load_hash_db w"
  from check_integrity_Inr [OF assms] obtain S where
    scan: "scan_files sha256 w = Inr S" and r: "r = spec_classify B S"
    and log0: "log_text w' = log_text w @ log_lines (clock w) (tick w)
           (map (current_event B) S @ map deleted_event (deleted (spec_classify B S)))"
    unfolding B_def by blast
  have d: "distinct (map fst S)" by (rule scan_files_distinct [OF scan])
  have safe: "n \<in> set (safe r) \<longleftrightarrow>
        (\<exists>old cur. map_of B n = Some old \<and> map_of S n = Some cur \<and> hash old = hash cur)" for n
    unfolding r by (rule spec_classify_safe_iff [OF d])
  have modified: "n \<in> set (modified r) \<longleftrightarrow>
        (\<exists>old cur. map_of B n = Some old \<and> map_of S n = Some cur \<and> hash old \<noteq> hash cur)" for n
    unfolding r by (rule spec_classify_modified_iff [OF d])
  have new: "n \<in> set (new r) \<longleftrightarrow> n \<in> set (dict_keys S) \<and> n \<notin> set (dict_keys B)" for n
    unfolding r by (rule spec_classify_new_iff)
  have deleted: "n \<in> set (deleted r) \<longleftrightarrow> n \<in> set (dict_keys B) \<and> n \<notin> set (dict_keys S)" for n
    unfolding r by (rule spec_classify_deleted_iff)
  have disj: "set (safe r) \<inter> set (modified r) = {}" "set (safe r) \<inter> set (new r) = {}"
     "set (safe r) \<inter> set (deleted r) = {}" "set (modified r) \<inter> set (new r) = {}"
     "set (modified r) \<inter> set (deleted r) = {}" "set (new r) \<inter> set (deleted r) = {}"
    using safe modified new deleted by (auto simp: mem_dict_keys)
  have un: "set (safe r) \<union> set (modified r) \<union> set (new r) \<union> set (deleted r)
       = set (dict_keys S) \<union> set (dict_keys B)"
  proof (rule set_eqI)
    fix n
    show "n \<in> set (safe r) \<union> set (modified r) \<union> set (new r) \<union> set (deleted r)
       \<longleftrightarrow> n \<in> set (dict_keys S) \<union> set (dict_keys B)"
      by (cases "map_of B n"; cases "map_of S n") (auto simp: safe modified new deleted mem_dict_keys)
  qed
  have ev: "map (current_event B) S =
       map (\<lambda>(n, i).
               if n \<in> set (safe r) then (''INFO'', ''File verified OK'', n)
               else if n \<in> set (modified r)
                 then (''WARNING'', ''File integrity failed! Hash mismatch detected'', n)
               else (''ALERT'', ''Unknown file detected (new file added)'', n)) S"
    unfolding r by (rule map_cong [OF refl]) (auto simp: current_event_class [OF d])
  have del: "map deleted_event (deleted r) = map (\<lambda>n. (''ALERT'', ''File has been deleted'', n)) (deleted r)"
    by (simp add: deleted_event_def)
  have log: "log_text w' = log_text w @ log_lines (clock w) (tick w)
       (map (current_event B) S @ map deleted_event (deleted r))"
    unfolding r by (rule log0)
  show ?thesis
    unfolding Let_def B_def [symmetric]
    using scan safe modified new deleted disj un log [unfolded ev del] by blast
qed

theorem check_integrity_classification_witness:
  "check_integrity toy_digest demo_world
     = (Inr demo_results, snd (check_integrity toy_digest demo_world)) \<and>
   set (safe demo_results) \<union> set (modified demo_results) \<union> set (new demo_results)
     \<union> set (deleted demo_results) = {''a.txt'', ''b.txt'', ''c.txt'', ''gone.txt''} \<and>
   set (safe demo_results) = {''a.txt''} \<and> set (modified demo_results) = {''b.txt''} \<and>
   set (new demo_results) = {''c.txt''} \<and> set (deleted demo_results) = {''gone.txt''} \<and>
   log_text (snd (check_integrity toy_digest demo_world)) =
     ''[2024-01-02 03:04:05] INFO: File verified OK (File: '' @ [DQUOTE] @ ''a.txt'' @ [DQUOTE] @ '')'' @ [LF]
     @ ''[2024-01-02 03:04:06] WARNING: File integrity failed! Hash mismatch detected (File: ''
       @ [DQUOTE] @ ''b.txt'' @ [DQUOTE] @ '')'' @ [LF]
     @ ''[2024-01-02 03:04:07] ALERT: Unknown file detected (new file added) (File: ''
       @ [DQUOTE] @ ''c.txt'' @ [DQUOTE] @ '')'' @ [LF]
     @ ''[2024-01-02 03:04:08] ALERT: File has been deleted (File: '' @ [DQUOTE] @ ''gone.txt''
       @ [DQUOTE] @ '')'' @ [LF]"
proof -
  have h: "check_integrity toy_digest demo_world
     = (Inr demo_results, snd (check_integrity toy_digest demo_world))"
    using demo_check by (simp add: prod_eq_iff)
  have w: "log_text demo_world = []" "clock demo_world = demo_clock" "tick demo_world = 0"
    by (simp_all add: demo_world_def log_text_def)
  from check_integrity_classification [OF h]
  have "log_text (snd (check_integrity toy_digest demo_world)) =
     ''[2024-01-02 03:04:05] INFO: File verified OK (File: '' @ [DQUOTE] @ ''a.txt'' @ [DQUOTE] @ '')'' @ [LF]
     @ ''[2024-01-02 03:04:06] WARNING: File integrity failed! Hash mismatch detected (File: ''
       @ [DQUOTE] @ ''b.txt'' @ [DQUOTE] @ '')'' @ [LF]
     @ ''[2024-01-02 03:04:07] ALERT: Unknown file detected (new file added) (File: ''
       @ [DQUOTE] @ ''c.txt'' @ [DQUOTE] @ '')'' @ [LF]
     @ ''[2024-01-02 03:04:08] ALERT: File has been deleted (File: '' @ [DQUOTE] @ ''gone.txt''
       @ [DQUOTE] @ '')'' @ [LF]"
    unfolding Let_def demo_scan w
    by (simp add: demo_results_def demo_snapshot_def log_entry_text_def demo_stamp)
  with h show ?thesis
    by (simp add: demo_results_def insert_commute)
qed

text \<open>
  C2. A name in both the baseline and the snapshot is classified by digest equality
  alone. Two completed checks whose baselines agree on names and digests, and whose
  snapshots agree on names and digests, return the same four lists, whatever the sizes
  and modification times; and a name in both with equal digests is safe and is not
  modified.
\<close>

theorem check_integrity_digest_only:
  assumes "check_integrity sha256 w1 = (Inr r1, w1')"
    and "check_integrity sha256' w2 = (Inr r2, w2')"
    and "scan_files sha256 w1 = Inr S1" and "scan_files sha256' w2 = Inr S2"
    and "digests (load_hash_db w1) = digests (load_hash_db w2)"
    and "digests S1 = digests S2"
  shows "r1 = r2 \<and>
     (\<forall>n old cur. map_of (load_hash_db w1) n = Some old \<and>
                  map_of S1 n = Some cur \<and> hash old = hash cur
        \<longrightarrow> n \<in> set (safe r1) \<and> n \<notin> set (modified r1))"
proof -
  from check_integrity_Inr [OF assms(1)] assms(3)
  have r1: "r1 = spec_classify (load_hash_db w1) S1" by auto
  from check_integrity_Inr [OF assms(2)] assms(4)
  have r2: "r2 = spec_classify (load_hash_db w2) S2" by auto
  have eq: "r1 = r2"
    unfolding r1 r2 by (rule spec_classify_digests_cong [OF assms(5) assms(6)])
  note d = scan_files_distinct [OF assms(3)]
  have "n \<in> set (safe r1) \<and> n \<notin> set (modified r1)"
    if "map_of (load_hash_db w1) n = Some old" "map_of S1 n = Some cur"
      "hash old = hash cur" for n old cur
    using that unfolding r1
    by (simp add: spec_classify_safe_iff [OF d] spec_classify_modified_iff [OF d])
  with eq show ?thesis by blast
qed

theorem check_integrity_digest_only_witness:
  "fst (check_integrity toy_digest demo_world) = Inr demo_results \<and>
   fst (check_integrity toy_digest touched_world) = Inr demo_results \<and>
   scan_files toy_digest demo_world = Inr demo_snapshot \<and>
   scan_files toy_digest touched_world = Inr touched_snapshot \<and>
   map (size_bytes \<circ> snd) (load_hash_db demo_world) = [99, 4, 4] \<and>
   map (size_bytes \<circ> snd) (load_hash_db touched_world) = [5, 1000, 0] \<and>
   map (modified_at \<circ> snd) demo_snapshot
     = [''2024-01-02 03:04:05'', ''2024-01-02 03:04:05'', ''2024-01-02 03:04:05''] \<and>
   map (modified_at \<circ> snd) touched_snapshot
     = [''2025-06-07 23:08:09'', ''2024-01-02 03:04:05'', ''2025-06-07 23:08:09''] \<and>
   map_of (load_hash_db demo_world) ''a.txt''
     = Some \<lparr>hash = ''sha:alpha'', size_bytes = 99, modified_at = ''1999-12-31 23:59:59''\<rparr> \<and>
   map_of demo_snapshot ''a.txt''
     = Some \<lparr>hash = ''sha:alpha'', size_bytes = 5, modified_at = ''2024-01-02 03:04:05''\<rparr> \<and>
   ''a.txt'' \<in> set (safe demo_results) \<and> ''a.txt'' \<notin> set (modified demo_results)"
proof -
  have h1: "check_integrity toy_digest demo_world
     = (Inr demo_results, snd (check_integrity toy_digest demo_world))"
    using demo_check by (simp add: prod_eq_iff)
  from check_integrity_completes [OF _ _ touched_scan] obtain r2 w2 where
    h2: "check_integrity toy_digest touched_world = (Inr r2, w2)"
    by (auto simp: touched_world_def demo_world_def)
  have h3: "digests (load_hash_db demo_world) = digests (load_hash_db touched_world)"
    by (simp add: demo_load touched_load digests_def demo_baseline_def resized_baseline_def)
  have h4: "digests demo_snapshot = digests touched_snapshot"
    by (simp add: demo_snapshot_def touched_snapshot_def digests_def)
  from check_integrity_digest_only [OF h1 h2 demo_scan touched_scan h3 h4]
  have "r2 = demo_results" by simp
  with h2 have 2: "fst (check_integrity toy_digest touched_world) = Inr demo_results" by simp
  from demo_check 2 demo_scan touched_scan show ?thesis
    by (simp add: demo_load touched_load demo_baseline_def resized_baseline_def
        demo_snapshot_def touched_snapshot_def demo_results_def)
qed

text \<open>
  C3. A check that completes has saved the snapshot it scanned and classified: loading
  the baseline afterwards returns exactly that snapshot, whatever the classification.
\<close>

theorem check_integrity_saves_snapshot:
  assumes "check_integrity sha256 w = (Inr r, w')"
  shows "\<exists>S. scan_files sha256 w = Inr S \<and> load_hash_db w' = S \<and>
             hash_db_file w' = Some (Json S)"
proof -
  from check_integrity_Inr [OF assms] obtain S where
    "scan_files sha256 w = Inr S" and "hash_db_file w' = Some (Json S)" by blast
  then show ?thesis by (simp add: load_hash_db_def)
qed

theorem check_integrity_saves_snapshot_witness:
  "check_integrity toy_digest demo_world
     = (Inr demo_results, snd (check_integrity toy_digest demo_world)) \<and>
   scan_files toy_digest demo_world = Inr demo_snapshot \<and>
   load_hash_db (snd (check_integrity toy_digest demo_world)) =
     [(''a.txt'', \<lparr>hash = ''sha:alpha'', size_bytes = 5, modified_at = ''2024-01-02 03:04:05''\<rparr>),
      (''b.txt'', \<lparr>hash = ''sha:beta'', size_bytes = 4, modified_at = ''2024-01-02 03:04:05''\<rparr>),
      (''c.txt'', \<lparr>hash = ''sha:gamma'', size_bytes = 5, modified_at = ''2024-01-02 03:04:05''\<rparr>)]"
proof -
  have h: "check_integrity toy_digest demo_world
     = (Inr demo_results, snd (check_integrity toy_digest demo_world))"
    using demo_check by (simp add: prod_eq_iff)
  from check_integrity_saves_snapshot [OF h]
  have "load_hash_db (snd (check_integrity toy_digest demo_world)) = demo_snapshot"
    by (simp add: demo_scan)
  with h demo_scan show ?thesis by (simp add: demo_snapshot_def)
qed

text \<open>
  C6. When \<open>create_baseline\<close> completes and \<open>check_integrity\<close> then completes on the
  state it left, with the folder as it was, every scanned file is safe (in scan order)
  and nothing is modified, new or deleted; the count returned by \<open>create_baseline\<close> is
  the number of scanned files.
\<close>

theorem baseline_then_check_all_safe:
  assumes "create_baseline sha256 w = (Inr n, w1)"
    and "check_integrity sha256 w1 = (Inr r, w2)"
  shows "\<exists>S. scan_files sha256 w = Inr S \<and> scan_files sha256 w1 = Inr S \<and>
             safe r = dict_keys S \<and> modified r = [] \<and> new r = [] \<and> deleted r = [] \<and>
             n = length S"
proof -
  from create_baseline_Inr [OF assms(1)] obtain S where
    scan: "scan_files sha256 w = Inr S" and db: "hash_db_file w1 = Some (Json S)"
    and folder: "secure_folder w1 = secure_folder w" and n: "n = length S" by blast
  have scan1: "scan_files sha256 w1 = Inr S"
    using scan_files_folder [OF folder, of sha256] scan by simp
  have B: "load_hash_db w1 = S"
    using db by (simp add: load_hash_db_def)
  from check_integrity_Inr [OF assms(2)] scan1 B
  have "r = spec_classify S S" by auto
  then have "r = \<lparr>safe = dict_keys S, modified = [], deleted = [], new = []\<rparr>"
    by (simp add: spec_classify_self [OF scan_files_distinct [OF scan]])
  with scan scan1 n show ?thesis by simp
qed

theorem baseline_then_check_all_safe_witness:
  "fst (create_baseline toy_digest demo_world) = Inr 3 \<and>
   fst (check_integrity toy_digest (snd (create_baseline toy_digest demo_world)))
     = Inr \<lparr>safe = [''a.txt'', ''b.txt'', ''c.txt''], modified = [], deleted = [], new = []\<rparr>"
proof -
  let ?w1 = "snd (create_baseline toy_digest demo_world)"
  have 1: "fst (create_baseline toy_digest demo_world) = Inr 3"
    unfolding create_baseline_def demo_scan
    by (simp add: save_hash_db_def log_activity_def Let_def demo_world_def demo_snapshot_def)
  then have h1: "create_baseline toy_digest demo_world = (Inr 3, ?w1)"
    by (simp add: prod_eq_iff)
  from create_baseline_Inr [OF h1] obtain S where
    folder: "secure_folder ?w1 = secure_folder demo_world"
    and wr: "log_writable ?w1" and nf: "db_fault ?w1 = NoFault" by blast
  have scan1: "scan_files toy_digest ?w1 = Inr demo_snapshot"
    using scan_files_folder [OF folder, of toy_digest] demo_scan by simp
  from check_integrity_completes [OF wr nf scan1] obtain r w2 where
    h2: "check_integrity toy_digest ?w1 = (Inr r, w2)" by blast
  from baseline_then_check_all_safe [OF h1 h2]
  have "r = \<lparr>safe = [''a.txt'', ''b.txt'', ''c.txt''], modified = [], deleted = [], new = []\<rparr>"
    by (cases r) (auto simp: demo_scan demo_snapshot_def dict_keys_def)
  with h2 1 show ?thesis by simp
qed

section \<open>Audit log\<close>

text \<open>
  C10. With a writable log, a call with the empty string as file name is the same call
  as one without a file name: both return and append the line
  \<open>[timestamp] LEVEL: message\<close>, without suffix. A call with a non-empty file name
  returns and appends that line followed by \<open> (File: "name")\<close>.
\<close>

theorem log_activity_filename_suffix:
  assumes "log_writable w"
  shows "log_activity level message (Some []) w = log_activity level message None w \<and>
     fst (log_activity level message None w)
       = Inr (''['' @ strftime (clock w (tick w)) @ ''] '' @ level @ '': '' @ message) \<and>
     log_text (snd (log_activity level message None w))
       = log_text w @ ''['' @ strftime (clock w (tick w)) @ ''] '' @ level @ '': '' @ message @ [LF] \<and>
     (filename \<noteq> [] \<longrightarrow>
        fst (log_activity level message (Some filename) w)
          = Inr (''['' @ strftime (clock w (tick w)) @ ''] '' @ level @ '': '' @ message
                 @ '' (File: '' @ [DQUOTE] @ filename @ [DQUOTE] @ '')'') \<and>
        log_text (snd (log_activity level message (Some filename) w))
          = log_text w @ ''['' @ strftime (clock w (tick w)) @ ''] '' @ level @ '': '' @ message
                 @ '' (File: '' @ [DQUOTE] @ filename @ [DQUOTE] @ '')'' @ [LF])"
  using assms by (simp add: log_activity_def log_entry_text_def log_text_def Let_def)

theorem log_activity_filename_suffix_witness:
  "log_writable demo_world \<and>
   fst (log_activity ''INFO'' ''Log system has been reset'' (Some []) demo_world)
     = Inr ''[2024-01-02 03:04:05] INFO: Log system has been reset'' \<and>
   fst (log_activity ''INFO'' ''Log system has been reset'' None demo_world)
     = Inr ''[2024-01-02 03:04:05] INFO: Log system has been reset'' \<and>
   fst (log_activity ''INFO'' ''File verified OK'' (Some ''a.txt'') demo_world)
     = Inr (''[2024-01-02 03:04:05] INFO: File verified OK (File: '' @ [DQUOTE] @ ''a.txt''
            @ [DQUOTE] @ '')'')"
proof -
  have h: "log_writable demo_world" by (simp add: demo_world_def)
  have t: "strftime (clock demo_world (tick demo_world)) = ''2024-01-02 03:04:05''"
    by (simp add: demo_world_def demo_stamp(1))
  show ?thesis
    using h log_activity_filename_suffix [OF h, of "''INFO''" "''Log system has been reset''" "[]"]
      log_activity_filename_suffix [OF h, of "''INFO''" "''File verified OK''" "''a.txt''"]
    by (simp add: t)
qed

section \<open>Log statistics\<close>

text \<open>
  C7. \<open>parse_logs\<close> counts a line under at most one level, the first that matches in
  the order INFO, WARNING, ALERT: a line containing "INFO" adds one to \<open>info\<close> and
  nothing else, also when it contains "WARNING" or "ALERT"; without "INFO" and with
  "WARNING" it adds one to \<open>warning\<close> only; without both and with "ALERT" it adds one to
  \<open>alert\<close> only; otherwise it changes nothing. Over a log file the three counts are the
  numbers of such lines, and their sum is at most the number of lines.
\<close>

theorem parse_logs_first_match:
  "(sublist ''INFO'' log \<longrightarrow> parse_line log st = st\<lparr>info := info st + 1\<rparr>) \<and>
   (\<not> sublist ''INFO'' log \<and> sublist ''WARNING'' log \<longrightarrow>
      info (parse_line log st) = info st \<and> warning (parse_line log st) = warning st + 1 \<and>
      alert (parse_line log st) = alert st) \<and>
   (\<not> sublist ''INFO'' log \<and> \<not> sublist ''WARNING'' log \<and> sublist ''ALERT'' log \<longrightarrow>
      info (parse_line log st) = info st \<and> warning (parse_line log st) = warning st \<and>
      alert (parse_line log st) = alert st + 1) \<and>
   (\<not> sublist ''INFO'' log \<and> \<not> sublist ''WARNING'' log \<and> \<not> sublist ''ALERT'' log \<longrightarrow>
      parse_line log st = st) \<and>
   info (parse_line log st) + warning (parse_line log st) + alert (parse_line log st)
     \<le> info st + warning st + alert st + 1 \<and>
   (log_file w = Some text \<longrightarrow>
      info (parse_logs w) = length (filter (\<lambda>l. sublist ''INFO'' l) (readlines text)) \<and>
      warning (parse_logs w) =
        length (filter (\<lambda>l. \<not> sublist ''INFO'' l \<and> sublist ''WARNING'' l) (readlines text)) \<and>
      alert (parse_logs w) =
        length (filter (\<lambda>l. \<not> sublist ''INFO'' l \<and> \<not> sublist ''WARNING'' l \<and> sublist ''ALERT'' l)
                  (readlines text)) \<and>
      total_logs (parse_logs w) = length (readlines text) \<and>
      info (parse_logs w) + warning (parse_logs w) + alert (parse_logs w) \<le> total_logs (parse_logs w))"
proof -
  have single: "(sublist ''INFO'' log \<longrightarrow> parse_line log st = st\<lparr>info := info st + 1\<rparr>) \<and>
   (\<not> sublist ''INFO'' log \<and> sublist ''WARNING'' log \<longrightarrow>
      info (parse_line log st) = info st \<and> warning (parse_line log st) = warning st + 1 \<and>
      alert (parse_line log st) = alert st) \<and>
   (\<not> sublist ''INFO'' log \<and> \<not> sublist ''WARNING'' log \<and> sublist ''ALERT'' log \<longrightarrow>
      info (parse_line log st) = info st \<and> warning (parse_line log st) = warning st \<and>
      alert (parse_line log st) = alert st + 1) \<and>
   (\<not> sublist ''INFO'' log \<and> \<not> sublist ''WARNING'' log \<and> \<not> sublist ''ALERT'' log \<longrightarrow>
      parse_line log st = st) \<and>
   info (parse_line log st) + warning (parse_line log st) + alert (parse_line log st)
     \<le> info st + warning st + alert st + 1"
    by (simp add: parse_line_def)
  have whole: "info (parse_logs w) = length (filter (\<lambda>l. sublist ''INFO'' l) (readlines text)) \<and>
      warning (parse_logs w) =
        length (filter (\<lambda>l. \<not> sublist ''INFO'' l \<and> sublist ''WARNING'' l) (readlines text)) \<and>
      alert (parse_logs w) =
        length (filter (\<lambda>l. \<not> sublist ''INFO'' l \<and> \<not> sublist ''WARNING'' l \<and> sublist ''ALERT'' l)
                  (readlines text)) \<and>
      total_logs (parse_logs w) = length (readlines text) \<and>
      info (parse_logs w) + warning (parse_logs w) + alert (parse_logs w) \<le> total_logs (parse_logs w)"
    if l: "log_file w = Some text"
    unfolding parse_logs_Some(1-4) [OF l]
    using filter_three_le [of "\<lambda>l. sublist ''INFO'' l" "readlines text"
        "\<lambda>l. sublist ''WARNING'' l" "\<lambda>l. sublist ''ALERT'' l"]
    by simp
  from single whole show ?thesis by blast
qed

theorem parse_logs_first_match_witness:
  "log_file logged_world = Some demo_log \<and>
   sublist ''INFO'' (readlines demo_log ! 4) \<and> sublist ''ALERT'' (readlines demo_log ! 4) \<and>
   total_logs (parse_logs logged_world) = 5 \<and> info (parse_logs logged_world) = 2 \<and>
   warning (parse_logs logged_world) = 2 \<and> alert (parse_logs logged_world) = 1"
proof -
  have l: "log_file logged_world = Some demo_log" by (simp add: logged_world_def)
  have s: "sublist ''INFO'' (readlines demo_log ! 4)" "sublist ''ALERT'' (readlines demo_log ! 4)"
    unfolding readlines_demo_log by (simp_all add: sublist_Cons_right)
  from parse_logs_first_match [of "readlines demo_log ! 4" "parse_logs logged_world" logged_world demo_log]
    l s demo_parse
  show ?thesis by simp
qed


text \<open>
  C8. \<open>last_anomaly\<close> is the timestamp portion (the text before the first \<open>]\<close>, without
  \<open>[\<close>) of the last line in file order that is counted as WARNING or ALERT, and is
  absent when the log has no such line. For an absent or empty log all counts are zero
  and \<open>last_anomaly\<close> is absent. The timestamp portion of a line written by
  \<open>log_activity\<close> is the timestamp of that entry.
\<close>

theorem parse_logs_last_anomaly:
  "(log_file w = None \<or> log_file w = Some [] \<longrightarrow>
      parse_logs w = \<lparr>total_logs = 0, info = 0, warning = 0, alert = 0,
                       last_anomaly = None, recent_logs = []\<rparr>) \<and>
   (log_file w = Some text \<longrightarrow>
      last_anomaly (parse_logs w) =
        (let anomalies = filter (\<lambda>l. \<not> sublist ''INFO'' l \<and> (sublist ''WARNING'' l \<or> sublist ''ALERT'' l))
                           (readlines text)
         in if anomalies = [] then None else Some (timestamp_of (last anomalies)))) \<and>
   timestamp_of (log_entry_text (strftime d) level message filename @ [LF]) = strftime d"
proof -
  have "parse_logs w = \<lparr>total_logs = 0, info = 0, warning = 0, alert = 0,
                       last_anomaly = None, recent_logs = []\<rparr>"
    if "log_file w = None \<or> log_file w = Some []"
    using that by (auto simp: parse_logs_def readlines_def)
  then show ?thesis
    using parse_logs_Some(5) [of w "text"] timestamp_of_log_entry [of d level message filename "[LF]"]
    by blast
qed

theorem parse_logs_last_anomaly_witness:
  "log_file logged_world = Some demo_log \<and>
   last_anomaly (parse_logs logged_world) = Some ''2024-01-02 03:04:08'' \<and>
   last_anomaly (parse_logs (demo_world\<lparr>log_file := None\<rparr>)) = None \<and>
   total_logs (parse_logs demo_world) = 0 \<and>
   timestamp_of (log_entry_text (strftime demo_time) ''ALERT'' ''File has been deleted'' ''gone.txt'' @ [LF])
     = ''2024-01-02 03:04:05''"
proof -
  have l: "log_file logged_world = Some demo_log" by (simp add: logged_world_def)
  have t: "strftime demo_time = ''2024-01-02 03:04:05''"
    by (rule demo_times(1))
  from parse_logs_last_anomaly [of "demo_world\<lparr>log_file := None\<rparr>" demo_log demo_time
      "''ALERT''" "''File has been deleted''" "''gone.txt''"]
    parse_logs_last_anomaly [of demo_world demo_log]
    parse_logs_last_anomaly [of logged_world demo_log]
    l demo_parse(5)
  show ?thesis by (simp add: t demo_world_def)
qed

text \<open>
  C9. When \<open>reset_logs\<close> reports success, the log holds exactly one line, the INFO entry
  "Log system has been reset", whatever it held before: \<open>parse_logs\<close> then counts one
  line, one INFO, no WARNING and no ALERT. Success means the log could be written.
\<close>

theorem reset_logs_then_parse:
  assumes "reset_logs w = (True, w')"
  shows "log_file w' = Some (''['' @ strftime (clock w (tick w))
                              @ ''] INFO: Log system has been reset'' @ [LF]) \<and>
     total_logs (parse_logs w') = 1 \<and> info (parse_logs w') = 1 \<and>
     warning (parse_logs w') = 0 \<and> alert (parse_logs w') = 0 \<and>
     last_anomaly (parse_logs w') = None \<and>
     recent_logs (parse_logs w') = [''['' @ strftime (clock w (tick w))
                                      @ ''] INFO: Log system has been reset'' @ [LF]] \<and>
     log_writable w"
proof -
  let ?line = "''['' @ strftime (clock w (tick w)) @ ''] INFO: Log system has been reset'' @ [LF]"
  from assms have wr: "log_writable w"
    by (auto simp: reset_logs_def split: if_splits)
  with assms have l: "log_file w' = Some ?line"
    by (auto simp: reset_logs_def log_activity_def log_entry_text_def log_text_def Let_def)
  have r: "readlines ?line = [?line]"
    by (rule reset_line [OF strftime_plain(1) strftime_plain(2)])
  have i: "sublist ''INFO'' ?line" by (rule reset_line_info)
  show ?thesis
    unfolding parse_logs_Some [OF l] r using l i wr by simp
qed

theorem reset_logs_then_parse_witness:
  "reset_logs logged_world = (True, snd (reset_logs logged_world)) \<and>
   total_logs (parse_logs logged_world) = 5 \<and>
   log_file (snd (reset_logs logged_world))
     = Some (''[2024-01-02 03:04:05] INFO: Log system has been reset'' @ [LF]) \<and>
   total_logs (parse_logs (snd (reset_logs logged_world))) = 1 \<and>
   info (parse_logs (snd (reset_logs logged_world))) = 1 \<and>
   warning (parse_logs (snd (reset_logs logged_world))) = 0 \<and>
   alert (parse_logs (snd (reset_logs logged_world))) = 0"
proof -
  have "fst (reset_logs logged_world) = True"
    by (simp add: reset_logs_def log_activity_def Let_def logged_world_def demo_world_def)
  then have h: "reset_logs logged_world = (True, snd (reset_logs logged_world))"
    by (simp add: prod_eq_iff)
  have t: "strftime (clock logged_world (tick logged_world)) = ''2024-01-02 03:04:05''"
    by (simp add: logged_world_def demo_world_def demo_stamp(1))
  from reset_logs_then_parse [OF h] h demo_parse(1) show ?thesis
    by (simp add: t)
qed

section \<open>Scanner and baseline store\<close>

text \<open>
  C4, as the code has it. \<open>scan_files\<close> tests each direct entry with
  \<open>os.path.isfile\<close>, which follows symbolic links. A missing folder gives the empty
  snapshot; a folder that cannot be listed makes the scan raise. For a folder whose
  entries have distinct names: when some entry resolves to a readable regular file with
  a non-empty digest whose modification time is outside the years 1 to 9999, the scan
  raises; otherwise it returns a snapshot whose names are exactly, and in listing order,
  the entries that resolve to a readable regular file with a non-empty digest, each
  with the digest, size and modification time of the file it resolves to. So
  subdirectories, device files, dangling links and links to directories or devices are
  left out, a link to a regular file is included under the link's name, and no name
  outside the folder appears.
\<close>

theorem scan_files_follows_links:
  "(secure_folder w = Missing \<longrightarrow> scan_files sha256 w = Inr []) \<and>
   (secure_folder w = Unlistable \<longrightarrow> scan_files sha256 w = Inl OSError) \<and>
   (secure_folder w = Listing listing \<and> distinct (map fst listing) \<longrightarrow>
      (if \<exists>n node f. (n, node) \<in> set listing \<and> stat node = Some (Regular f) \<and> readable f \<and>
                      sha256 (content f) \<noteq> [] \<and> mtime f = None
       then scan_files sha256 w = Inl ValueError
       else \<exists>S. scan_files sha256 w = Inr S \<and>
          dict_keys S =
            map fst (filter (\<lambda>(n, node). \<exists>f. stat node = Some (Regular f) \<and> readable f \<and>
                                            sha256 (content f) \<noteq> []) listing) \<and>
          distinct (dict_keys S) \<and>
          set (dict_keys S) \<subseteq> fst ` set listing \<and>
          (\<forall>n node. (n, node) \<in> set listing \<longrightarrow>
             (n \<in> set (dict_keys S) \<longleftrightarrow>
                (\<exists>f. stat node = Some (Regular f) \<and> readable f \<and> sha256 (content f) \<noteq> []))) \<and>
          (\<forall>n node f. (n, node) \<in> set listing \<and> stat node = Some (Regular f) \<and> readable f \<and>
                       sha256 (content f) \<noteq> [] \<longrightarrow>
             (\<exists>d. mtime f = Some d \<and>
                  map_of S n = Some \<lparr>hash = sha256 (content f), size_bytes = length (content f),
                                     modified_at = strftime d\<rparr>)) \<and>
          (\<forall>n node. (n, node) \<in> set listing \<and>
                     (node = Directory \<or> node = Device \<or> node = Symlink None \<or>
                      node = Symlink (Some Directory) \<or> node = Symlink (Some Device)) \<longrightarrow>
             n \<notin> set (dict_keys S)) \<and>
          (\<forall>n f. (n, Symlink (Some (Regular f))) \<in> set listing \<and> readable f \<and>
                  sha256 (content f) \<noteq> [] \<longrightarrow>
             n \<in> set (dict_keys S))))"
proof -
  have missing: "scan_files sha256 w = Inr []" if "secure_folder w = Missing"
    using that by (simp add: scan_files_def)
  have unlistable: "scan_files sha256 w = Inl OSError" if "secure_folder w = Unlistable"
    using that by (simp add: scan_files_def)
  have raises: "scan_files sha256 w = Inl ValueError"
    if folder: "secure_folder w = Listing listing"
      and bad: "\<exists>n node f. (n, node) \<in> set listing \<and> stat node = Some (Regular f) \<and> readable f \<and>
                      sha256 (content f) \<noteq> [] \<and> mtime f = None"
  proof -
    from bad obtain n node f where
      "(n, node) \<in> set listing" "accepted_file sha256 node = Some f" "mtime f = None"
      by (auto simp: accepted_file_Some)
    from scan_loop_raises [OF this, of "[]"] folder show ?thesis
      by (simp add: scan_files_def)
  qed
  have returns: "\<exists>S. scan_files sha256 w = Inr S \<and>
          dict_keys S =
            map fst (filter (\<lambda>(n, node). \<exists>f. stat node = Some (Regular f) \<and> readable f \<and>
                                            sha256 (content f) \<noteq> []) listing) \<and>
          distinct (dict_keys S) \<and>
          set (dict_keys S) \<subseteq> fst ` set listing \<and>
          (\<forall>n node. (n, node) \<in> set listing \<longrightarrow>
             (n \<in> set (dict_keys S) \<longleftrightarrow>
                (\<exists>f. stat node = Some (Regular f) \<and> readable f \<and> sha256 (content f) \<noteq> []))) \<and>
          (\<forall>n node f. (n, node) \<in> set listing \<and> stat node = Some (Regular f) \<and> readable f \<and>
                       sha256 (content f) \<noteq> [] \<longrightarrow>
             (\<exists>d. mtime f = Some d \<and>
                  map_of S n = Some \<lparr>hash = sha256 (content f), size_bytes = length (content f),
                                     modified_at = strftime d\<rparr>)) \<and>
          (\<forall>n node. (n, node) \<in> set listing \<and>
                     (node = Directory \<or> node = Device \<or> node = Symlink None \<or>
                      node = Symlink (Some Directory) \<or> node = Symlink (Some Device)) \<longrightarrow>
             n \<notin> set (dict_keys S)) \<and>
          (\<forall>n f. (n, Symlink (Some (Regular f))) \<in> set listing \<and> readable f \<and>
                  sha256 (content f) \<noteq> [] \<longrightarrow>
             n \<in> set (dict_keys S))"
    if folder: "secure_folder w = Listing listing" and d: "distinct (map fst listing)"
      and good: "\<not> (\<exists>n node f. (n, node) \<in> set listing \<and> stat node = Some (Regular f) \<and>
                      readable f \<and> sha256 (content f) \<noteq> [] \<and> mtime f = None)"
  proof -
    from good have ok:
      "\<forall>n node f. (n, node) \<in> set listing \<and> accepted_file sha256 node = Some f \<longrightarrow> mtime f \<noteq> None"
      by (auto simp: accepted_file_Some)
    from scan_files_completes [OF folder ok] obtain S where scan: "scan_files sha256 w = Inr S"
      by blast
    from scan_files_Listing(1) [OF scan folder d] have S: "S = spec_snapshot sha256 listing" .
    have acc: "(\<lambda>(n, node). accepted_file sha256 node \<noteq> None)
        = (\<lambda>(n, node). \<exists>f. stat node = Some (Regular f) \<and> readable f \<and> sha256 (content f) \<noteq> [])"
      by (rule ext) (auto simp: accepted_file_Some)
    have keys: "dict_keys S =
            map fst (filter (\<lambda>(n, node). \<exists>f. stat node = Some (Regular f) \<and> readable f \<and>
                                            sha256 (content f) \<noteq> []) listing)"
      unfolding S dict_keys_def keys_spec_snapshot [OF ok] acc ..
    have dist: "distinct (dict_keys S)"
      using scan_files_distinct [OF scan] by (simp add: dict_keys_def)
    have sub: "set (dict_keys S) \<subseteq> fst ` set listing"
      unfolding keys by auto
    have look: "map_of S n =
         (case accepted_file sha256 node of
            None \<Rightarrow> None
          | Some f \<Rightarrow>
              (case mtime f of
                 None \<Rightarrow> None
               | Some d \<Rightarrow> Some \<lparr>hash = sha256 (content f), size_bytes = length (content f),
                                  modified_at = strftime d\<rparr>))"
      if "(n, node) \<in> set listing" for n node
      unfolding S by (rule map_of_spec_snapshot [OF d that])
    have mem: "n \<in> set (dict_keys S) \<longleftrightarrow>
                (\<exists>f. stat node = Some (Regular f) \<and> readable f \<and> sha256 (content f) \<noteq> [])"
      if e: "(n, node) \<in> set listing" for n node
    proof (cases "accepted_file sha256 node")
      case None
      with look [OF e] accepted_file_None [of sha256 node] show ?thesis
        by (simp add: mem_dict_keys)
    next
      case (Some f)
      with ok e obtain d0 where "mtime f = Some d0" by fastforce
      with Some look [OF e] accepted_file_None [of sha256 node] show ?thesis
        by (simp add: mem_dict_keys)
    qed
    have "record": "\<exists>d. mtime f = Some d \<and>
                  map_of S n = Some \<lparr>hash = sha256 (content f), size_bytes = length (content f),
                                     modified_at = strftime d\<rparr>"
      if e: "(n, node) \<in> set listing" and f: "stat node = Some (Regular f)" "readable f"
        "sha256 (content f) \<noteq> []" for n node f
    proof -
      from f have a: "accepted_file sha256 node = Some f" by (simp add: accepted_file_Some)
      with ok e obtain d0 where "mtime f = Some d0" by fastforce
      with a look [OF e] show ?thesis by simp
    qed
    have out: "n \<notin> set (dict_keys S)"
      if "(n, node) \<in> set listing"
        "node = Directory \<or> node = Device \<or> node = Symlink None \<or>
         node = Symlink (Some Directory) \<or> node = Symlink (Some Device)" for n node
      unfolding mem [OF that(1)] using that(2) by auto
    have link: "n \<in> set (dict_keys S)"
      if "(n, Symlink (Some (Regular f))) \<in> set listing" "readable f" "sha256 (content f) \<noteq> []"
      for n f
      unfolding mem [OF that(1)] using that(2,3) by simp
    from scan keys dist sub mem "record" out link show ?thesis by blast
  qed
  from missing unlistable raises returns show ?thesis by presburger
qed

theorem scan_files_follows_links_witness:
  "secure_folder link_world = Listing link_listing \<and> distinct (map fst link_listing) \<and>
   (''link'', Symlink (Some link_target)) \<in> set link_listing \<and>
   (''sublink'', Symlink (Some Directory)) \<in> set link_listing \<and>
   ''link'' \<in> set (dict_keys link_snapshot) \<and>
   ''sublink'' \<notin> set (dict_keys link_snapshot) \<and>
   scan_files toy_digest link_world
     = Inr [(''link'', \<lparr>hash = ''sha:target'', size_bytes = 6,
                        modified_at = ''2024-01-02 03:04:05''\<rparr>),
            (''old.txt'', \<lparr>hash = ''sha:old'', size_bytes = 3,
                           modified_at = ''999-01-02 03:04:05''\<rparr>)] \<and>
   secure_folder stale_world = Listing stale_listing \<and> distinct (map fst stale_listing) \<and>
   scan_files toy_digest stale_world = Inl ValueError \<and>
   scan_files toy_digest (demo_world\<lparr>secure_folder := Unlistable\<rparr>) = Inl OSError \<and>
   scan_files toy_digest (demo_world\<lparr>secure_folder := Missing\<rparr>) = Inr []"
proof -
  have 1: "secure_folder link_world = Listing link_listing" by (simp add: link_world_def)
  have 2: "distinct (map fst link_listing)" by (simp add: link_listing_def)
  have 3: "(''link'', Symlink (Some link_target)) \<in> set link_listing"
    and 4: "(''sublink'', Symlink (Some Directory)) \<in> set link_listing"
    by (simp_all add: link_listing_def)
  have 5: "secure_folder stale_world = Listing stale_listing" by (simp add: stale_world_def)
  have 6: "distinct (map fst stale_listing)" by (simp add: stale_listing_def)
  have bad: "\<exists>n node f. (n, node) \<in> set stale_listing \<and> stat node = Some (Regular f) \<and> readable f \<and>
                      toy_digest (content f) \<noteq> [] \<and> mtime f = None"
    by (rule exI [of _ "''future.bin''"],
        rule exI [of _ "Regular ((demo_file ''omega'')\<lparr>mtime := None\<rparr>)"],
        rule exI [of _ "(demo_file ''omega'')\<lparr>mtime := None\<rparr>"])
       (simp add: stale_listing_def demo_file_def toy_digest_def)
  have good: "\<not> (\<exists>n node f. (n, node) \<in> set link_listing \<and> stat node = Some (Regular f) \<and>
                      readable f \<and> toy_digest (content f) \<noteq> [] \<and> mtime f = None)"
    by (auto simp: link_listing_def link_target_def demo_file_def)
  note branches = scan_files_follows_links [of link_world toy_digest link_listing,
      THEN conjunct2, THEN conjunct2, THEN mp, OF conjI [OF 1 2]]
  from branches [unfolded if_not_P [OF good]]
  obtain S where "scan_files toy_digest link_world = Inr S"
    and "\<forall>n node. (n, node) \<in> set link_listing \<longrightarrow>
             (n \<in> set (dict_keys S) \<longleftrightarrow>
                (\<exists>f. stat node = Some (Regular f) \<and> readable f \<and> toy_digest (content f) \<noteq> []))"
    by blast
  with link_scan 3 4 have member:
    "''link'' \<in> set (dict_keys link_snapshot)" "''sublink'' \<notin> set (dict_keys link_snapshot)"
    by (auto simp: link_target_def demo_file_def toy_digest_def)
  from scan_files_follows_links [of stale_world toy_digest stale_listing] 5 6 bad
  have stale: "scan_files toy_digest stale_world = Inl ValueError" by simp
  from scan_files_follows_links [of "demo_world\<lparr>secure_folder := Unlistable\<rparr>" toy_digest "[]"]
  have unl: "scan_files toy_digest (demo_world\<lparr>secure_folder := Unlistable\<rparr>) = Inl OSError"
    by simp
  from scan_files_follows_links [of "demo_world\<lparr>secure_folder := Missing\<rparr>" toy_digest "[]"]
  have mis: "scan_files toy_digest (demo_world\<lparr>secure_folder := Missing\<rparr>) = Inr []"
    by simp
  from 1 2 3 4 5 6 stale unl mis link_scan member show ?thesis
    by (simp add: link_snapshot_def)
qed

text \<open>
  C4 as stated fails: the folder \<open>link_listing\<close> has the entry \<open>link\<close>, a symbolic link to
  a regular file, and the snapshot has a record under that name.
\<close>

theorem scan_files_symlink_counterexample:
  "secure_folder link_world = Listing link_listing \<and>
   (''link'', Symlink (Some link_target)) \<in> set link_listing \<and>
   islink (Symlink (Some link_target)) \<and>
   scan_files toy_digest link_world = Inr link_snapshot \<and>
   ''link'' \<in> set (dict_keys link_snapshot)"
proof -
  have "secure_folder link_world = Listing link_listing"
    and "(''link'', Symlink (Some link_target)) \<in> set link_listing"
    and "islink (Symlink (Some link_target))"
    and "''link'' \<in> set (dict_keys link_snapshot)"
    by (simp_all add: link_world_def link_listing_def islink_def link_snapshot_def dict_keys_def)
  with link_scan show ?thesis by blast
qed

text \<open>
  C5, as the code has it. \<open>save_hash_db\<close> opens the baseline file for writing, which
  truncates it, and writes the document in place. When the save completes, loading
  returns the saved snapshot. When the file cannot be opened, the save raises and the
  state is unchanged. When the write fails after the open, the save raises, the previous
  baseline is gone and loading returns the empty baseline.
\<close>

theorem save_hash_db_in_place:
  "(db_fault w = NoFault \<longrightarrow>
      fst (save_hash_db S w) = Inr () \<and> load_hash_db (snd (save_hash_db S w)) = S) \<and>
   (db_fault w = OpenFails \<longrightarrow>
      fst (save_hash_db S w) = Inl PermissionError \<and> snd (save_hash_db S w) = w) \<and>
   (db_fault w = WriteFails \<longrightarrow>
      fst (save_hash_db S w) = Inl OSError \<and> load_hash_db (snd (save_hash_db S w)) = [])"
  by (simp add: save_hash_db_def load_hash_db_def)

theorem save_hash_db_in_place_witness:
  "db_fault demo_world = NoFault \<and>
   load_hash_db (snd (save_hash_db demo_snapshot demo_world))
     = demo_snapshot \<and>
   db_fault (demo_world\<lparr>db_fault := OpenFails\<rparr>) = OpenFails \<and>
   load_hash_db (snd (save_hash_db demo_snapshot
                        (demo_world\<lparr>db_fault := OpenFails\<rparr>))) = demo_baseline \<and>
   db_fault failing_world = WriteFails \<and>
   load_hash_db (snd (save_hash_db demo_snapshot failing_world)) = []"
proof -
  have 1: "db_fault demo_world = NoFault"
    and 2: "db_fault (demo_world\<lparr>db_fault := OpenFails\<rparr>) = OpenFails"
    and 3: "db_fault failing_world = WriteFails"
    by (simp_all add: demo_world_def failing_world_def)
  from save_hash_db_in_place [of demo_world demo_snapshot]
    save_hash_db_in_place [of "demo_world\<lparr>db_fault := OpenFails\<rparr>" demo_snapshot]
    save_hash_db_in_place [of failing_world demo_snapshot]
    1 2 3
  show ?thesis by (simp add: load_hash_db_def demo_world_def)
qed

text \<open>
  C5 as stated fails: in \<open>failing_world\<close> the stored baseline is \<open>demo_baseline\<close>, the save
  fails during the write, and loading afterwards returns the empty baseline, not the
  previous one.
\<close>

theorem save_hash_db_not_atomic_counterexample:
  "load_hash_db failing_world = demo_baseline \<and>
   fst (save_hash_db demo_snapshot failing_world) = Inl OSError \<and>
   load_hash_db (snd (save_hash_db demo_snapshot failing_world)) = [] \<and>
   load_hash_db (snd (save_hash_db demo_snapshot failing_world))
     \<noteq> load_hash_db failing_world"
  by (simp add: save_hash_db_def load_hash_db_def failing_world_def demo_world_def
      demo_baseline_def)

end
